theory Spec2Isabelle
  imports Complex_Main "HOL-Library.Word"
begin

section \<open>Strings, paths and buffers\<close>

text \<open>
  A JavaScript string is modelled as a \<^typ>\<open>string\<close>: one \<^typ>\<open>char\<close> per code unit, for
  the code units below 256 (the Latin-1 range, which holds every message of the route and
  every extension of its allow-list). A \<open>Buffer\<close> is a list of bytes.
\<close>

type_synonym buffer = "8 word list"

text \<open>The letters with a lower-case form, and their lower-case forms, in the same order.\<close>

definition upper_letters :: string where
  "upper_letters =
     ''ABCDEFGHIJKLMNOPQRSTUVWXYZ'' @
     [CHR 0xC0, CHR 0xC1, CHR 0xC2, CHR 0xC3, CHR 0xC4, CHR 0xC5, CHR 0xC6, CHR 0xC7,
      CHR 0xC8, CHR 0xC9, CHR 0xCA, CHR 0xCB, CHR 0xCC, CHR 0xCD, CHR 0xCE, CHR 0xCF,
      CHR 0xD0, CHR 0xD1, CHR 0xD2, CHR 0xD3, CHR 0xD4, CHR 0xD5, CHR 0xD6, CHR 0xD8,
      CHR 0xD9, CHR 0xDA, CHR 0xDB, CHR 0xDC, CHR 0xDD, CHR 0xDE]"

definition lower_letters :: string where
  "lower_letters =
     ''abcdefghijklmnopqrstuvwxyz'' @
     [CHR 0xE0, CHR 0xE1, CHR 0xE2, CHR 0xE3, CHR 0xE4, CHR 0xE5, CHR 0xE6, CHR 0xE7,
      CHR 0xE8, CHR 0xE9, CHR 0xEA, CHR 0xEB, CHR 0xEC, CHR 0xED, CHR 0xEE, CHR 0xEF,
      CHR 0xF0, CHR 0xF1, CHR 0xF2, CHR 0xF3, CHR 0xF4, CHR 0xF5, CHR 0xF6, CHR 0xF8,
      CHR 0xF9, CHR 0xFA, CHR 0xFB, CHR 0xFC, CHR 0xFD, CHR 0xFE]"

definition lower_char :: "char \<Rightarrow> char" where
  "lower_char c = (case map_of (zip upper_letters lower_letters) c of None \<Rightarrow> c | Some l \<Rightarrow> l)"

text \<open>\<open>String.prototype.toLowerCase\<close> on the Latin-1 range.\<close>

definition toLowerCase :: "string \<Rightarrow> string" where
  "toLowerCase s = map lower_char s"

text \<open>\<open>String.prototype.startsWith\<close>, \<open>endsWith\<close> and \<open>includes\<close>.\<close>

definition startsWith :: "string \<Rightarrow> string \<Rightarrow> bool" where
  "startsWith s p = (take (length p) s = p)"

definition endsWith :: "string \<Rightarrow> string \<Rightarrow> bool" where
  "endsWith s p = (length p \<le> length s \<and> drop (length s - length p) s = p)"

fun includes_str :: "string \<Rightarrow> string \<Rightarrow> bool" where
  "includes_str [] p = (p = [])"
| "includes_str (c # s) p = (startsWith (c # s) p \<or> includes_str s p)"

text \<open>
  The white space and line terminators that \<open>String.prototype.trim\<close> strips, among the code
  units below 256: TAB, LF, VT, FF, CR, SP and NBSP.
\<close>

definition is_whitespace :: "char \<Rightarrow> bool" where
  "is_whitespace c = ((of_char c :: nat) \<in> {9, 10, 11, 12, 13, 32, 160})"

definition trim :: "string \<Rightarrow> string" where
  "trim s = rev (dropWhile is_whitespace (rev (dropWhile is_whitespace s)))"

text \<open>\<open>Array.prototype.join\<close> with a separator.\<close>

fun join :: "string list \<Rightarrow> string \<Rightarrow> string" where
  "join [] sep = []"
| "join [x] sep = x"
| "join (x # y # ys) sep = x @ sep @ join (y # ys) sep"

text \<open>The decimal rendering of a non-negative integer in a template literal.\<close>

definition digit_char :: "nat \<Rightarrow> char" where
  "digit_char d = ''0123456789'' ! d"

function show_nat :: "nat \<Rightarrow> string" where
  "show_nat n = (if n < 10 then [digit_char n] else show_nat (n div 10) @ [digit_char (n mod 10)])"
  by pat_completeness auto
termination
  by (relation "measure (\<lambda>n. n)") auto

declare show_nat.simps [simp del]

text \<open>
  \<open>path.extname\<close> of Node's POSIX \<open>path\<close> module: the extension of the last segment of the
  path (trailing slashes skipped), from its last dot; empty when the segment has no dot, when
  its only dot is its first character, or when the segment is \<open>..\<close>. The segment is handled
  reversed, as the library scans the path from its end.
\<close>

definition extname :: "string \<Rightarrow> string" where
  "extname p =
     (let seg = takeWhile (\<lambda>c. c \<noteq> CHR ''/'') (dropWhile (\<lambda>c. c = CHR ''/'') (rev p));
          ext = takeWhile (\<lambda>c. c \<noteq> CHR ''.'') seg;
          before = drop (Suc (length ext)) seg
      in if CHR ''.'' \<notin> set seg \<or> before = [] \<or> seg = ''..'' then []
         else CHR ''.'' # rev ext)"

text \<open>\<open>String.prototype.split\<close> on a one-character separator.\<close>

fun split_on :: "char \<Rightarrow> string \<Rightarrow> string list" where
  "split_on c [] = [[]]"
| "split_on c (x # xs) =
     (if x = c then [] # split_on c xs
      else (case split_on c xs of [] \<Rightarrow> [[x]] | s # ss \<Rightarrow> (x # s) # ss))"

text \<open>
  \<open>path.normalize\<close> of Node's POSIX \<open>path\<close> module. Its \<open>normalizeString\<close> walks the
  segments of the path: an empty segment or \<open>.\<close> is dropped; \<open>..\<close> removes the segment kept
  last, unless there is none or it is \<open>..\<close> itself, and then \<open>..\<close> is kept when the path is
  relative and dropped when it is absolute; any other segment is kept.
\<close>

definition normalize_step :: "bool \<Rightarrow> string list \<Rightarrow> string \<Rightarrow> string list" where
  "normalize_step allowAboveRoot res seg =
     (if seg = [] \<or> seg = ''.'' then res
      else if seg = ''..'' then
        (if res \<noteq> [] \<and> last res \<noteq> ''..'' then butlast res
         else if allowAboveRoot then res @ [''..''] else res)
      else res @ [seg])"

definition normalizeString :: "string \<Rightarrow> bool \<Rightarrow> string" where
  "normalizeString p allowAboveRoot =
     join (foldl (normalize_step allowAboveRoot) [] (split_on (CHR ''/'') p)) ''/''"

definition normalize :: "string \<Rightarrow> string" where
  "normalize p =
     (if p = [] then ''.''
      else
        (let isAbsolute = (hd p = CHR ''/'');
             trailingSeparator = (last p = CHR ''/'');
             path = normalizeString p (\<not> isAbsolute)
         in if path = [] then
              (if isAbsolute then ''/'' else if trailingSeparator then ''./'' else ''.'')
            else (if isAbsolute then ''/'' else []) @ path @
                 (if trailingSeparator then ''/'' else [])))"

text \<open>
  \<open>path.join(dir, name)\<close>: the operands that are not empty, joined with a slash, then
  normalised.
\<close>

definition path_join :: "string \<Rightarrow> string \<Rightarrow> string" where
  "path_join dir name =
     (let joined = (if dir = [] then name else if name = [] then dir else dir @ ''/'' @ name)
      in if joined = [] then ''.'' else normalize joined)"

text \<open>\<open>Buffer.prototype.slice(start, end)\<close> for non-negative integer bounds.\<close>

definition slice :: "'a list \<Rightarrow> nat \<Rightarrow> nat \<Rightarrow> 'a list" where
  "slice buf start end' = take (end' - start) (drop start buf)"

section \<open>Errors, the environment and the world\<close>

text \<open>
  A thrown value is an error object; the route reads its \<open>status\<close>, \<open>code\<close> and \<open>message\<close>.
  \<open>new Error(msg)\<close> has neither status nor code.
\<close>

record js_error =
  status :: "nat option"
  code :: "string option"
  message :: string

definition Error :: "string \<Rightarrow> js_error" where
  "Error msg = \<lparr>status = None, code = None, message = msg\<rparr>"

text \<open>The outcome of one call of \<open>openai.audio.transcriptions.create\<close>.\<close>

datatype api_result = ApiText string | ApiError js_error

text \<open>
  The collaborators of a request, fixed for a run: the outcome of the \<open>k\<close>-th call of the
  transcription API, the outcome of the \<open>k\<close>-th call of \<open>writeFile\<close>, the value of the
  \<open>k\<close>-th read of \<open>Date.now()\<close>, \<open>os.tmpdir()\<close>, \<open>process.env.OPENAI_API_KEY\<close> and the
  document renderer \<open>generatePDF\<close>.
\<close>

text \<open>
  The outcome of one call of \<open>writeFile\<close>: the file is written, or the call rejects with an
  error and leaves at the path what it wrote before failing, if it got to create the file.
\<close>

datatype write_outcome = Written | Rejected js_error "buffer option"

record env =
  api :: "nat \<Rightarrow> api_result"
  write_outcome :: "nat \<Rightarrow> write_outcome"
  clock :: "nat \<Rightarrow> nat"
  tmpdir :: string
  OPENAI_API_KEY :: "string option"
  generatePDF :: "string \<Rightarrow> string \<Rightarrow> js_error + buffer"

text \<open>
  The state a request changes: the file system, the paths passed to the transcription API in
  call order, the waits of \<open>setTimeout\<close> in order, the number of reads of the clock and the
  number of calls of \<open>writeFile\<close>.
\<close>

record world =
  fs :: "string \<rightharpoonup> buffer"
  api_calls :: "string list"
  sleeps :: "nat list"
  ticks :: nat
  writes :: nat

text \<open>\<open>writeFile\<close>: the error it rejects with, if any, and the world it leaves.\<close>

definition writeFile :: "env \<Rightarrow> string \<Rightarrow> buffer \<Rightarrow> world \<Rightarrow> js_error option \<times> world" where
  "writeFile E p b w =
     (case write_outcome E (writes w) of
        Written \<Rightarrow> (None, w\<lparr>fs := (fs w)(p \<mapsto> b), writes := Suc (writes w)\<rparr>)
      | Rejected error left \<Rightarrow>
          (Some error,
           w\<lparr>fs := (case left of None \<Rightarrow> fs w | Some b' \<Rightarrow> (fs w)(p \<mapsto> b')),
             writes := Suc (writes w)\<rparr>))"

text \<open>
  \<open>unlink(p).catch(() => {})\<close>, as the route always calls it: the file is removed, and the
  rejection for a file that does not exist is discarded.
\<close>

definition unlink :: "string \<Rightarrow> world \<Rightarrow> world" where
  "unlink p w = w\<lparr>fs := (fs w)(p := None)\<rparr>"

definition readFile :: "string \<Rightarrow> world \<Rightarrow> js_error + buffer" where
  "readFile p w =
     (case fs w p of
        None \<Rightarrow> Inl \<lparr>status = None, code = Some ''ENOENT'',
                     message = ''ENOENT: no such file or directory, open '' @
                       [CHR 0x27] @ p @ [CHR 0x27]\<rparr>
      | Some b \<Rightarrow> Inr b)"

definition date_now :: "env \<Rightarrow> world \<Rightarrow> nat \<times> world" where
  "date_now E w = (clock E (ticks w), w\<lparr>ticks := Suc (ticks w)\<rparr>)"

definition setTimeout :: "nat \<Rightarrow> world \<Rightarrow> world" where
  "setTimeout ms w = w\<lparr>sleeps := sleeps w @ [ms]\<rparr>"

text \<open>One call of the transcription API on the file at a path.\<close>

definition transcriptions_create :: "env \<Rightarrow> string \<Rightarrow> world \<Rightarrow> api_result \<times> world" where
  "transcriptions_create E p w =
     (api E (length (api_calls w)), w\<lparr>api_calls := api_calls w @ [p]\<rparr>)"

section \<open>The transcription route\<close>

definition MAX_SIZE :: nat where
  "MAX_SIZE = 25 * 1024 * 1024"

definition CHUNK_SIZE :: nat where
  "CHUNK_SIZE = 20 * 1024 * 1024"

definition SUPPORTED_FORMATS :: "string list" where
  "SUPPORTED_FORMATS =
     [''.flac'', ''.m4a'', ''.mp3'', ''.mp4'', ''.mpeg'', ''.mpga'', ''.oga'', ''.ogg'',
      ''.wav'', ''.webm'']"

definition isSupportedFormat :: "string \<Rightarrow> bool" where
  "isSupportedFormat fileName =
     (let ext = toLowerCase (extname fileName) in ext \<in> set SUPPORTED_FORMATS)"

subsection \<open>splitMP3IntoChunks\<close>

text \<open>
  \<open>Math.ceil(fileSize / CHUNK_SIZE)\<close>. A file size is a natural number; the division is
  that of the reals, which the division of doubles agrees with on the sizes a buffer can have.
\<close>

definition numChunks :: "nat \<Rightarrow> nat" where
  "numChunks fileSize = nat \<lceil>real fileSize / real CHUNK_SIZE\<rceil>"

definition chunk_start :: "nat \<Rightarrow> nat" where
  "chunk_start i = i * CHUNK_SIZE"

definition chunk_end :: "nat \<Rightarrow> nat \<Rightarrow> nat" where
  "chunk_end fileSize i = min (chunk_start i + CHUNK_SIZE) fileSize"

text \<open>The path of chunk \<open>i\<close>, created at time \<open>now\<close>.\<close>

definition chunk_path :: "string \<Rightarrow> nat \<Rightarrow> nat \<Rightarrow> string \<Rightarrow> string" where
  "chunk_path dir i now extension =
     path_join dir (''chunk_'' @ show_nat i @ ''_'' @ show_nat now @ extension)"

text \<open>
  The loop over the chunk indices, from index \<open>i\<close> on; a write that rejects ends it, and
  the function, with the error.
\<close>

function split_loop ::
  "env \<Rightarrow> buffer \<Rightarrow> nat \<Rightarrow> string \<Rightarrow> nat \<Rightarrow> nat \<Rightarrow> string list \<Rightarrow> world \<Rightarrow>
   (js_error + string list) \<times> world"
where
  "split_loop E fileBuffer fileSize extension n i chunks w =
     (if i < n then
        (let chunkBuffer = slice fileBuffer (chunk_start i) (chunk_end fileSize i);
             (now, w1) = date_now E w;
             chunkPath = chunk_path (tmpdir E) i now extension
         in case writeFile E chunkPath chunkBuffer w1 of
              (Some error, w2) \<Rightarrow> (Inl error, w2)
            | (None, w2) \<Rightarrow>
                split_loop E fileBuffer fileSize extension n (Suc i) (chunks @ [chunkPath]) w2)
      else (Inr chunks, w))"
  by pat_completeness auto
termination
  by (relation "measure (\<lambda>(E, fileBuffer, fileSize, extension, n, i, chunks, w). n - i)") auto

declare split_loop.simps [simp del]

definition splitMP3IntoChunks ::
  "env \<Rightarrow> string \<Rightarrow> nat \<Rightarrow> world \<Rightarrow> (js_error + string list) \<times> world"
where
  "splitMP3IntoChunks E filePath fileSize w =
     (case readFile filePath w of
        Inl e \<Rightarrow> (Inl e, w)
      | Inr fileBuffer \<Rightarrow>
          split_loop E fileBuffer fileSize (extname filePath) (numChunks fileSize) 0 [] w)"

subsection \<open>transcribeAudio\<close>

text \<open>
  \<open>transcribeAudio\<close> of \<open>src/app/api/transcribe/route.ts\<close>: one call of the API; what the
  call throws is thrown on unchanged.
\<close>

definition transcribeAudio :: "env \<Rightarrow> string \<Rightarrow> world \<Rightarrow> (js_error + string) \<times> world" where
  "transcribeAudio E filePath w =
     (case transcriptions_create E filePath w of
        (ApiText transcription, w1) \<Rightarrow> (Inr transcription, w1)
      | (ApiError error, w1) \<Rightarrow> (Inl error, w1))"

text \<open>
  \<open>transcribeAudio\<close> of the second route file (\<open>src/unnamed/part_000\<close>), which classifies the
  error of the call and retries connection errors by calling itself.
\<close>

definition MAX_RETRIES :: nat where
  "MAX_RETRIES = 3"

definition is_connection_error :: "js_error \<Rightarrow> bool" where
  "is_connection_error error =
     (code error = Some ''ECONNREFUSED'' \<or> code error = Some ''ENOTFOUND'' \<or>
      includes_str (message error) ''Connection error'')"

definition msg_invalid_key :: string where
  "msg_invalid_key =
     ''API key de OpenAI inv'' @ [CHR 0xE1] @
     ''lida. Por favor, verifica tu configuraci'' @ [CHR 0xF3] @ ''n en .env.local''"

definition msg_rate_limit :: string where
  "msg_rate_limit =
     ''L'' @ [CHR 0xED] @ ''mite de rate excedido. Espera unos minutos e intenta nuevamente.''"

definition msg_too_large :: string where
  "msg_too_large = ''El archivo es demasiado grande para este fragmento.''"

definition msg_connection :: string where
  "msg_connection =
     ''Error de conexi'' @ [CHR 0xF3] @ ''n con OpenAI despu'' @ [CHR 0xE9] @
     ''s de varios intentos. Verifica tu conexi'' @ [CHR 0xF3] @
     ''n a internet y que tu API key sea v'' @ [CHR 0xE1] @ ''lida.''"

definition msg_unknown :: string where
  "msg_unknown = ''Error desconocido al transcribir audio''"

function transcribeAudio_retry ::
  "env \<Rightarrow> string \<Rightarrow> nat \<Rightarrow> world \<Rightarrow> (js_error + string) \<times> world"
where
  "transcribeAudio_retry E filePath retryCount w =
     (case transcriptions_create E filePath w of
        (ApiText transcription, w1) \<Rightarrow> (Inr transcription, w1)
      | (ApiError error, w1) \<Rightarrow>
          if status error = Some 401 then (Inl (Error msg_invalid_key), w1)
          else if status error = Some 429 then (Inl (Error msg_rate_limit), w1)
          else if status error = Some 413 then (Inl (Error msg_too_large), w1)
          else if is_connection_error error then
            (if retryCount < MAX_RETRIES then
               (let waitTime = (retryCount + 1) * 2000;
                    w2 = setTimeout waitTime w1
                in transcribeAudio_retry E filePath (retryCount + 1) w2)
             else (Inl (Error msg_connection), w1))
          else (Inl (Error (if message error = [] then msg_unknown else message error)), w1))"
  by pat_completeness auto
termination
  by (relation "measure (\<lambda>(E, filePath, retryCount, w). MAX_RETRIES - retryCount)") auto

declare transcribeAudio_retry.simps [simp del]

subsection \<open>processAudioFile\<close>

text \<open>
  The two route files have the same \<open>processAudioFile\<close> up to logging; its body is written
  once, over the \<open>transcribeAudio\<close> it calls.
\<close>

type_synonym transcriber = "string \<Rightarrow> world \<Rightarrow> (js_error + string) \<times> world"

definition msg_chunk_failed :: "nat \<Rightarrow> nat \<Rightarrow> string \<Rightarrow> string" where
  "msg_chunk_failed i n m =
     ''Fall'' @ [CHR 0xF3] @ '' la transcripci'' @ [CHR 0xF3] @ ''n del fragmento '' @
     show_nat (i + 1) @ ''/'' @ show_nat n @ ''. '' @
     ''Error: '' @ m @ ''. El proceso se ha detenido.''"

text \<open>The loop over the chunks, from index \<open>i\<close> on: the first failure ends it.\<close>

function transcribe_chunks ::
  "transcriber \<Rightarrow> string list \<Rightarrow> nat \<Rightarrow> string list \<Rightarrow> world \<Rightarrow> (js_error + string list) \<times> world"
where
  "transcribe_chunks tr chunks i transcriptions w =
     (if i < length chunks then
        (case tr (chunks ! i) w of
           (Inr chunkTranscription, w1) \<Rightarrow>
             transcribe_chunks tr chunks (Suc i) (transcriptions @ [chunkTranscription]) w1
         | (Inl error, w1) \<Rightarrow>
             (Inl (Error (msg_chunk_failed i (length chunks) (message error))), w1))
      else (Inr transcriptions, w))"
  by pat_completeness auto
termination
  by (relation "measure (\<lambda>(tr, chunks, i, transcriptions, w). length chunks - i)") auto

declare transcribe_chunks.simps [simp del]

definition separator :: string where
  "separator = [CHR 0x0A, CHR 0x0A]"

definition msg_empty :: string where
  "msg_empty = ''No se pudo obtener ninguna transcripci'' @ [CHR 0xF3] @ ''n del audio''"

definition msg_unsupported :: "string \<Rightarrow> string" where
  "msg_unsupported ext =
     ''Formato '' @ ext @
     '' no soportado. Por favor, convierte tu audio a MP3 primero usando un convertidor online.''"

text \<open>
  The \<open>try\<close> block: the result, the chunks registered in \<open>chunksToClean\<close> when the block is
  left, and the world then.
\<close>

definition process_try ::
  "transcriber \<Rightarrow> env \<Rightarrow> string \<Rightarrow> nat \<Rightarrow> world \<Rightarrow> (js_error + string) \<times> string list \<times> world"
where
  "process_try tr E filePath fileSize w =
     (case
        (if fileSize \<le> MAX_SIZE then
           (case tr filePath w of
              (Inl e, w1) \<Rightarrow> (Inl e, [], w1)
            | (Inr transcription, w1) \<Rightarrow> (Inr [transcription], [], w1))
         else
           (case splitMP3IntoChunks E filePath fileSize w of
              (Inl e, w1) \<Rightarrow> (Inl e, [], w1)
            | (Inr chunks, w1) \<Rightarrow>
                (case transcribe_chunks tr chunks 0 [] w1 of
                   (r, w2) \<Rightarrow> (r, chunks, w2))))
      of
        (Inl e, chunksToClean, w3) \<Rightarrow> (Inl e, chunksToClean, w3)
      | (Inr transcriptions, chunksToClean, w3) \<Rightarrow>
          (let fullTranscription = join transcriptions separator
           in if length (trim fullTranscription) = 0
              then (Inl (Error msg_empty), chunksToClean, w3)
              else (Inr fullTranscription, chunksToClean, w3)))"

text \<open>The \<open>finally\<close> block.\<close>

definition cleanup :: "string list \<Rightarrow> world \<Rightarrow> world" where
  "cleanup chunksToClean w = fold unlink chunksToClean w"

definition processAudioFile_body ::
  "transcriber \<Rightarrow> env \<Rightarrow> string \<Rightarrow> nat \<Rightarrow> string \<Rightarrow> world \<Rightarrow> (js_error + string) \<times> world"
where
  "processAudioFile_body tr E filePath fileSize originalName w =
     (if \<not> isSupportedFormat originalName then
        (let ext = toLowerCase (extname originalName)
         in (Inl (Error (msg_unsupported ext)), w))
      else
        (case process_try tr E filePath fileSize w of
           (r, chunksToClean, w1) \<Rightarrow> (r, cleanup chunksToClean w1)))"

definition processAudioFile ::
  "env \<Rightarrow> string \<Rightarrow> nat \<Rightarrow> string \<Rightarrow> world \<Rightarrow> (js_error + string) \<times> world"
where
  "processAudioFile E = processAudioFile_body (transcribeAudio E) E"

definition processAudioFile_retry ::
  "env \<Rightarrow> string \<Rightarrow> nat \<Rightarrow> string \<Rightarrow> world \<Rightarrow> (js_error + string) \<times> world"
where
  "processAudioFile_retry E =
     processAudioFile_body (\<lambda>filePath. transcribeAudio_retry E filePath 0) E"

subsection \<open>POST\<close>

record upload =
  file_name :: string
  file_type :: string
  file_bytes :: buffer

text \<open>
  A response: the JSON object \<open>{ error }\<close> with its status, or the document with its
  status and its \<open>Content-Type\<close> and \<open>Content-Disposition\<close> headers.
\<close>

datatype response =
  JsonError string nat
  | PdfAttachment buffer nat string string

text \<open>
  The constructor of the response throws on a header value that holds a NUL, a line feed or
  a carriage return (the value of \<open>Content-Disposition\<close> starts and ends with characters
  that are not white space, so that nothing is stripped from it first). The message is the
  wording of Node's implementation of \<open>Headers\<close>.
\<close>

definition valid_header_value :: "string \<Rightarrow> bool" where
  "valid_header_value v = (CHR 0x00 \<notin> set v \<and> CHR 0x0A \<notin> set v \<and> CHR 0x0D \<notin> set v)"

definition invalid_header :: "string \<Rightarrow> js_error" where
  "invalid_header v =
     Error (''Headers.append: '' @ [CHR 0x22] @ v @ [CHR 0x22] @ '' is an invalid header value.'')"

text \<open>
  The handler from \<open>req.formData()\<close> on, shared by the two route files. The form data is
  either what \<open>req.formData()\<close> throws or the \<open>audio\<close> field, if any. The \<open>catch\<close> block
  unlinks the temporary file when \<open>tempFilePath\<close> is set; the path of success does not.
\<close>

definition msg_of :: "js_error \<Rightarrow> string" where
  "msg_of error = (if message error = [] then ''Error al procesar el audio'' else message error)"

definition POST_upload ::
  "(string \<Rightarrow> nat \<Rightarrow> string \<Rightarrow> world \<Rightarrow> (js_error + string) \<times> world) \<Rightarrow>
   env \<Rightarrow> js_error + upload option \<Rightarrow> world \<Rightarrow> response \<times> world"
where
  "POST_upload process E formData w =
     (case formData of
        Inl error \<Rightarrow> (JsonError (msg_of error) 500, w)
      | Inr None \<Rightarrow> (JsonError (''No se encontr'' @ [CHR 0xF3] @ '' el archivo de audio'') 400, w)
      | Inr (Some file) \<Rightarrow>
          (let buffer = file_bytes file;
               (now, w1) = date_now E w;
               tempFilePath = path_join (tmpdir E)
                 (''upload_'' @ show_nat now @ ''_'' @ file_name file)
           in case writeFile E tempFilePath buffer w1 of
                (Some error, w2) \<Rightarrow> (JsonError (msg_of error) 500, unlink tempFilePath w2)
              | (None, w2) \<Rightarrow>
                  (case process tempFilePath (length (file_bytes file)) (file_name file) w2 of
                     (Inl error, w3) \<Rightarrow> (JsonError (msg_of error) 500, unlink tempFilePath w3)
                   | (Inr transcription, w3) \<Rightarrow>
                       (case generatePDF E (file_name file) transcription of
                          Inl error \<Rightarrow> (JsonError (msg_of error) 500, unlink tempFilePath w3)
                        | Inr pdfBytes \<Rightarrow>
                            (let disposition =
                                   ''attachment; filename='' @ [CHR 0x22] @
                                   hd (split_on (CHR ''.'') (file_name file)) @
                                   ''_transcripcion.pdf'' @ [CHR 0x22]
                             in if valid_header_value disposition
                                then (PdfAttachment pdfBytes 200 ''application/pdf'' disposition, w3)
                                else (JsonError (msg_of (invalid_header disposition)) 500,
                                      unlink tempFilePath w3))))))"

text \<open>\<open>POST\<close> of \<open>src/app/api/transcribe/route.ts\<close>.\<close>

definition POST :: "env \<Rightarrow> js_error + upload option \<Rightarrow> world \<Rightarrow> response \<times> world" where
  "POST E formData w =
     (if OPENAI_API_KEY E = None \<or> OPENAI_API_KEY E = Some []
      then (JsonError ''API Key de OpenAI no configurada'' 500, w)
      else POST_upload (processAudioFile E) E formData w)"

text \<open>\<open>POST\<close> of the second route file, which also checks the shape of the key.\<close>

definition POST_retry :: "env \<Rightarrow> js_error + upload option \<Rightarrow> world \<Rightarrow> response \<times> world" where
  "POST_retry E formData w =
     (if OPENAI_API_KEY E = None \<or> OPENAI_API_KEY E = Some []
      then (JsonError ''API Key de OpenAI no configurada. Verifica tu archivo .env.local'' 500, w)
      else if \<not> startsWith (the (OPENAI_API_KEY E)) ''sk-''
      then (JsonError (''API Key de OpenAI inv'' @ [CHR 0xE1] @ ''lida. Debe comenzar con '' @
              [CHR 0x22] @ ''sk-'' @ [CHR 0x22]) 500, w)
      else POST_upload (processAudioFile_retry E) E formData w)"

section \<open>The upload form's validation (\<open>src/lib/utils.ts\<close>)\<close>

definition validTypes :: "string list" where
  "validTypes =
     [''audio/mpeg'', ''audio/mp3'', ''audio/mp4'', ''audio/wav'', ''audio/x-wav'',
      ''audio/webm'', ''audio/m4a'', ''audio/x-m4a'', ''audio/aac'', ''audio/mpga'']"

text \<open>
  The regular expression \<open>/\.(mp3|mp4|mpeg|mpga|m4a|wav|webm|aac)$/i\<close>: the name ends in a
  dot and one of the alternatives, letters compared without case.
\<close>

definition matches_audio_extension :: "string \<Rightarrow> bool" where
  "matches_audio_extension name =
     (\<exists>alt \<in> set [''mp3'', ''mp4'', ''mpeg'', ''mpga'', ''m4a'', ''wav'', ''webm'', ''aac''].
        endsWith (toLowerCase name) (''.'' @ alt))"

definition isValidAudioFile :: "upload \<Rightarrow> bool" where
  "isValidAudioFile file =
     (file_type file \<in> set validTypes \<or> matches_audio_extension (file_name file))"

definition getSupportedFormats :: "string list" where
  "getSupportedFormats =
     [''.mp3'', ''.mp4'', ''.mpeg'', ''.mpga'', ''.m4a'', ''.wav'', ''.webm'', ''.aac'']"

section \<open>Notions used to state the properties\<close>

text \<open>Decimal digits, and reading a decimal rendering back.\<close>

definition is_digit :: "char \<Rightarrow> bool" where "is_digit c = (c \<in> set ''0123456789'')"

definition digit_val :: "char \<Rightarrow> nat" where
  "digit_val c = (case map_of (zip ''0123456789'' [0..<10]) c of None \<Rightarrow> 0 | Some d \<Rightarrow> d)"

definition read_nat :: "string \<Rightarrow> nat" where
  "read_nat s = foldl (\<lambda>a c. a * 10 + digit_val c) 0 s"

text \<open>
  What \<open>path.join\<close> puts before a plain file name (one that is not empty, \<open>.\<close> or \<open>..\<close> and
  holds no slash) in a directory.
\<close>

definition path_prefix :: "string \<Rightarrow> string" where
  "path_prefix dir =
     (if dir = [] then []
      else
        (let isAbsolute = (hd dir = CHR ''/'');
             kept = foldl (normalize_step (\<not> isAbsolute)) [] (split_on (CHR ''/'') dir)
         in (if isAbsolute then ''/'' else []) @ (if kept = [] then [] else join kept ''/'' @ ''/'')))"

definition plain_name :: "string \<Rightarrow> bool" where
  "plain_name name =
     (name \<noteq> [] \<and> name \<noteq> ''.'' \<and> name \<noteq> ''..'' \<and> CHR ''/'' \<notin> set name)"

text \<open>
  Whether the next \<open>m\<close> calls of \<open>writeFile\<close> write their file; and one round of the
  chunking loop whose write does: the clock is read and the chunk is written.
\<close>

definition writes_ok :: "env \<Rightarrow> world \<Rightarrow> nat \<Rightarrow> bool" where
  "writes_ok E w m = (\<forall>j<m. write_outcome E (writes w + j) = Written)"

definition write_chunk :: "env \<Rightarrow> buffer \<Rightarrow> nat \<Rightarrow> string \<Rightarrow> nat \<Rightarrow> world \<Rightarrow> world" where
  "write_chunk E buf S ext i w =
     w\<lparr>ticks := Suc (ticks w),
       fs := (fs w)(chunk_path (tmpdir E) i (clock E (ticks w)) ext \<mapsto>
                     slice buf (chunk_start i) (chunk_end S i)),
       writes := Suc (writes w)\<rparr>"

text \<open>
  The world in which the loop over the chunks reaches chunk \<open>k\<close>, when the chunks before it
  were transcribed; and whether the transcription of chunk \<open>k\<close> fails there.
\<close>

definition world_before :: "transcriber \<Rightarrow> string list \<Rightarrow> nat \<Rightarrow> world \<Rightarrow> world" where
  "world_before tr chunks k w = fold (\<lambda>c w'. snd (tr c w')) (take k chunks) w"

definition fails_at :: "transcriber \<Rightarrow> string list \<Rightarrow> world \<Rightarrow> nat \<Rightarrow> bool" where
  "fails_at tr chunks w k = isl (fst (tr (chunks ! k) (world_before tr chunks k w)))"

text \<open>
  The outcomes of the API: whether one is an error, the text of one that is not, and the
  number of calls made on \<open>n\<close> chunks from call \<open>base\<close> on, the first failing call being
  the last one made.
\<close>

definition is_api_error :: "api_result \<Rightarrow> bool" where
  "is_api_error r = (case r of ApiText t \<Rightarrow> False | ApiError e \<Rightarrow> True)"

definition the_text :: "api_result \<Rightarrow> string" where
  "the_text r = (case r of ApiText t \<Rightarrow> t | ApiError e \<Rightarrow> [])"


text \<open>
  The errors that \<open>transcribeAudio\<close> of the second route file retries: connection errors
  whose status is none of those it throws on at once.
\<close>

definition fatal_status :: "js_error \<Rightarrow> bool" where
  "fatal_status e = (status e = Some 401 \<or> status e = Some 429 \<or> status e = Some 413)"

definition is_transient :: "api_result \<Rightarrow> bool" where
  "is_transient r =
     (case r of ApiText t \<Rightarrow> False | ApiError e \<Rightarrow> \<not> fatal_status e \<and> is_connection_error e)"

text \<open>The world after one call of the API on a path, and after \<open>m\<close> retried calls.\<close>

definition called :: "string \<Rightarrow> world \<Rightarrow> world" where
  "called p w = w\<lparr>api_calls := api_calls w @ [p]\<rparr>"

definition retried :: "string \<Rightarrow> nat \<Rightarrow> nat \<Rightarrow> world \<Rightarrow> world" where
  "retried p rc m w =
     w\<lparr>api_calls := api_calls w @ replicate m p,
       sleeps := sleeps w @ map (\<lambda>j. (rc + j + 1) * 2000) [0..<m]\<rparr>"

section \<open>Example requests\<close>

definition example_env :: env where
  "example_env =
     \<lparr>api = (\<lambda>k. ApiText ''hola''), write_outcome = (\<lambda>k. Written),
      clock = (\<lambda>k. 1700000000000 + k), tmpdir = ''/tmp'',
      OPENAI_API_KEY = Some ''sk-test'',
      generatePDF = (\<lambda>fileName transcription. Inr [37, 80, 68, 70])\<rparr>"

text \<open>An upload of 30 000 000 bytes, above the threshold of 25 MB, and a world that holds it.\<close>

definition large_upload :: buffer where
  "large_upload = replicate 30000000 0"

definition large_world :: world where
  "large_world =
     \<lparr>fs = [''/tmp/upload_1_a.mp3'' \<mapsto> large_upload], api_calls = [], sleeps = [], ticks = 0,
      writes = 0\<rparr>"

text \<open>The world after the upload was cut in two chunks.\<close>

definition chunked_world :: world where
  "chunked_world = large_world\<lparr>ticks := 2, writes := 2,
     fs := (fs large_world)(''/tmp/chunk_0_1700000000000.mp3'' \<mapsto> replicate 20971520 0,
                            ''/tmp/chunk_1_1700000000001.mp3'' \<mapsto> replicate 9028480 0)\<rparr>"


definition blank_env :: env where
  "blank_env = example_env\<lparr>api := (\<lambda>k. ApiText [CHR 0x20, CHR 0x0A])\<rparr>"

definition numbered_env :: env where
  "numbered_env = example_env\<lparr>api := (\<lambda>k. ApiText (''parte '' @ show_nat k))\<rparr>"

text \<open>A world that holds an upload of three bytes.\<close>

definition small_world :: world where
  "small_world =
     \<lparr>fs = [''/tmp/upload_1_a.mp3'' \<mapsto> [73, 68, 51]], api_calls = [], sleeps = [], ticks = 0,
      writes = 0\<rparr>"

text \<open>
  The connection error of the API client; an API that is never reached, one that is reached
  at the third call, and one that answers every call with a given status.
\<close>

definition connection_error :: js_error where
  "connection_error = \<lparr>status = None, code = None, message = ''Connection error.''\<rparr>"

definition offline_env :: env where
  "offline_env = example_env\<lparr>api := (\<lambda>k. ApiError connection_error)\<rparr>"

definition flaky_env :: env where
  "flaky_env =
     example_env\<lparr>api := (\<lambda>k. if k < 2 then ApiError connection_error else ApiText ''hola'')\<rparr>"

definition status_env :: "nat \<Rightarrow> env" where
  "status_env s =
     example_env\<lparr>api := (\<lambda>k. ApiError \<lparr>status = Some s, code = None, message = ''upstream''\<rparr>)\<rparr>"

text \<open>An empty world, and a small upload with a supported name.\<close>

definition empty_world :: world where
  "empty_world = \<lparr>fs = Map.empty, api_calls = [], sleeps = [], ticks = 0,
      writes = 0\<rparr>"

definition example_file :: upload where
  "example_file = \<lparr>file_name = ''a.mp3'', file_type = ''audio/mpeg'', file_bytes = [73, 68, 51]\<rparr>"

text \<open>
  A disk that fills up: the second call of \<open>writeFile\<close> rejects, before it creates its file.
\<close>

definition no_space :: js_error where
  "no_space =
     \<lparr>status = None, code = Some ''ENOSPC'', message = ''ENOSPC: no space left on device, write''\<rparr>"

definition full_disk_env :: env where
  "full_disk_env =
     example_env\<lparr>write_outcome := (\<lambda>k. if k = 1 then Rejected no_space None else Written)\<rparr>"

section \<open>Decimal renderings and chunk paths\<close>

lemma digit_char_is_digit: "d < 10 \<Longrightarrow> is_digit (digit_char d)"
  unfolding is_digit_def digit_char_def by (rule nth_mem) simp

lemma show_nat_digits: "c \<in> set (show_nat n) \<Longrightarrow> is_digit c"
proof (induction n rule: show_nat.induct)
  case (1 n)
  show ?case
  proof (cases "n < 10")
    case True
    with "1.prems" show ?thesis by (simp add: show_nat.simps[of n] digit_char_is_digit)
  next
    case False
    with "1.prems" "1.IH" show ?thesis
      by (auto simp: show_nat.simps[of n] digit_char_is_digit)
  qed
qed

lemma digit_val_digit_char: 
  assumes "d < 10" shows "digit_val (digit_char d) = d"
proof -
  from assms have "d = 0 \<or> d = 1 \<or> d = 2 \<or> d = 3 \<or> d = 4 \<or> d = 5 \<or> d = 6 \<or> d = 7 \<or> d = 8 \<or> d = 9"
    by arith
  then show ?thesis
    by (elim disjE) (simp_all add: digit_val_def digit_char_def upt_rec)
qed

lemma read_show: "read_nat (show_nat n) = n"
proof (induction n rule: show_nat.induct)
  case (1 n)
  show ?case
  proof (cases "n < 10")
    case True
    then show ?thesis by (simp add: show_nat.simps[of n] read_nat_def digit_val_digit_char)
  next
    case False
    with "1.IH" show ?thesis
      by (simp add: show_nat.simps[of n] read_nat_def digit_val_digit_char)
  qed
qed

lemma show_nat_inj: "show_nat m = show_nat n \<Longrightarrow> m = n"
  by (metis read_show)

lemma underscore_not_digit: "\<not> is_digit (CHR ''_'')"
  by (simp add: is_digit_def)

lemma takeWhile_show_nat: "takeWhile is_digit (show_nat n @ CHR ''_'' # r) = show_nat n"
  by (simp add: takeWhile_append2 show_nat_digits underscore_not_digit)

section \<open>Joining a directory and a plain file name\<close>

lemma split_on_nonempty: "split_on c xs \<noteq> []"
  by (induction xs) (auto split: list.splits)

lemma split_on_plain: "c \<notin> set name \<Longrightarrow> split_on c name = [name]"
  by (induction name) auto

lemma split_on_append:
  "c \<notin> set name \<Longrightarrow> split_on c (dir @ c # name) = split_on c dir @ [name]"
proof (induction dir)
  case Nil
  then show ?case by (simp add: split_on_plain)
next
  case (Cons x xs)
  then show ?case
    using split_on_nonempty[of c xs] by (cases "split_on c xs") auto
qed

lemma join_snoc: "join (xs @ [x]) sep = (if xs = [] then x else join xs sep @ sep @ x)"
  by (induction xs sep rule: join.induct) auto

lemma normalize_step_plain: "plain_name name \<Longrightarrow> normalize_step a res name = res @ [name]"
  by (auto simp: plain_name_def normalize_step_def)

lemma plain_name_ends:
  assumes "plain_name name"
  shows "name \<noteq> []" "CHR ''/'' \<notin> set name" "hd name \<noteq> CHR ''/''" "last name \<noteq> CHR ''/''"
proof -
  from assms show ne: "name \<noteq> []" and slash: "CHR ''/'' \<notin> set name"
    by (simp_all add: plain_name_def)
  from ne have "hd name \<in> set name" and "last name \<in> set name" by simp_all
  with slash show "hd name \<noteq> CHR ''/''" and "last name \<noteq> CHR ''/''" by metis+
qed

lemma normalizeString_plain:
  assumes "plain_name name"
  shows "normalizeString name a = name"
  using assms
  by (simp add: normalizeString_def split_on_plain plain_name_ends(2) normalize_step_plain)

lemma normalizeString_in_dir:
  assumes "plain_name name"
  shows "normalizeString (dir @ CHR ''/'' # name) a =
     (if foldl (normalize_step a) [] (split_on (CHR ''/'') dir) = [] then name
      else join (foldl (normalize_step a) [] (split_on (CHR ''/'') dir)) ''/'' @ CHR ''/'' # name)"
  using assms
  by (simp add: normalizeString_def split_on_append plain_name_ends(2) normalize_step_plain join_snoc)

lemma normalize_plain:
  assumes "plain_name name"
  shows "normalize name = name"
  using plain_name_ends[OF assms]
  by (simp add: normalize_def normalizeString_plain[OF assms])

lemma normalize_in_dir:
  assumes plain: "plain_name name" and dir: "dir \<noteq> []"
  shows "normalize (dir @ CHR ''/'' # name) = path_prefix dir @ name"
proof -
  let ?p = "dir @ CHR ''/'' # name"
  let ?abs = "hd dir = CHR ''/''"
  let ?kept = "foldl (normalize_step (\<not> ?abs)) [] (split_on (CHR ''/'') dir)"
  note ends = plain_name_ends[OF plain]
  have h: "hd ?p = hd dir" using dir by simp
  have l: "last ?p = last name" using ends(1) by simp
  have path: "normalizeString ?p (\<not> ?abs) =
      (if ?kept = [] then name else join ?kept ''/'' @ CHR ''/'' # name)"
    by (rule normalizeString_in_dir[OF plain])
  have nonempty: "normalizeString ?p (\<not> ?abs) \<noteq> []"
    unfolding path using ends(1) by simp
  have "normalize ?p = (if ?abs then ''/'' else []) @ normalizeString ?p (\<not> ?abs)"
    unfolding normalize_def Let_def h l using nonempty ends(4) by simp
  also have "\<dots> = path_prefix dir @ name"
    unfolding path path_prefix_def Let_def using dir by simp
  finally show ?thesis .
qed

lemma path_join_plain:
  assumes plain: "plain_name name"
  shows "path_join dir name = path_prefix dir @ name"
proof (cases "dir = []")
  case True
  then show ?thesis
    using plain_name_ends(1)[OF plain]
    by (simp add: path_join_def normalize_plain[OF plain] path_prefix_def)
next
  case False
  then show ?thesis
    using plain_name_ends(1)[OF plain]
    by (simp add: path_join_def normalize_in_dir[OF plain False])
qed

lemma extname_no_slash: "CHR ''/'' \<notin> set (extname p)"
proof -
  have "CHR ''/'' \<notin> set (takeWhile (\<lambda>c. c \<noteq> CHR ''.'') (takeWhile (\<lambda>c. c \<noteq> CHR ''/'') xs))" for xs
    by (auto dest!: set_takeWhileD)
  then show ?thesis by (simp add: extname_def Let_def)
qed

lemma show_nat_no_slash: "CHR ''/'' \<notin> set (show_nat n)"
  using show_nat_digits[of "CHR ''/''" n] by (auto simp: is_digit_def)

lemma chunk_name_plain:
  "CHR ''/'' \<notin> set e \<Longrightarrow> plain_name (''chunk_'' @ show_nat i @ ''_'' @ show_nat t @ e)"
  by (simp add: plain_name_def show_nat_no_slash)

lemma chunk_path_plain:
  "CHR ''/'' \<notin> set e \<Longrightarrow>
   chunk_path dir i t e = path_prefix dir @ ''chunk_'' @ show_nat i @ ''_'' @ show_nat t @ e"
  unfolding chunk_path_def by (rule path_join_plain) (rule chunk_name_plain)

lemma chunk_path_inj:
  assumes "chunk_path dir i t e = chunk_path dir j t' e'"
    and "CHR ''/'' \<notin> set e" "CHR ''/'' \<notin> set e'"
  shows "i = j"
proof -
  from assms have "show_nat i @ CHR ''_'' # (show_nat t @ e) = show_nat j @ CHR ''_'' # (show_nat t' @ e')"
    by (simp add: chunk_path_plain)
  then have "takeWhile is_digit (show_nat i @ CHR ''_'' # (show_nat t @ e)) =
             takeWhile is_digit (show_nat j @ CHR ''_'' # (show_nat t' @ e'))" by simp
  then have "show_nat i = show_nat j" by (simp only: takeWhile_show_nat)
  then show ?thesis by (rule show_nat_inj)
qed

section \<open>The chunking loop\<close>

lemma writes_ok_first: "writes_ok E w (Suc m) \<Longrightarrow> write_outcome E (writes w) = Written"
  unfolding writes_ok_def by (drule spec[of _ 0]) simp

lemma writes_ok_rest:
  assumes "writes_ok E w (Suc m)"
  shows "writes_ok E (write_chunk E buf S ext i w) m"
  unfolding writes_ok_def
proof (intro allI impI)
  fix j assume "j < m"
  then have "write_outcome E (writes w + Suc j) = Written"
    using assms unfolding writes_ok_def by (metis Suc_less_eq)
  then show "write_outcome E (writes (write_chunk E buf S ext i w) + j) = Written"
    by (simp add: write_chunk_def)
qed

lemma writes_ok_Suc:
  assumes "write_outcome E (writes w) = Written"
    and "writes_ok E (write_chunk E buf S ext i w) m"
  shows "writes_ok E w (Suc m)"
  unfolding writes_ok_def
proof (intro allI impI)
  fix j assume j: "j < Suc m"
  show "write_outcome E (writes w + j) = Written"
  proof (cases j)
    case 0
    with assms(1) show ?thesis by simp
  next
    case (Suc j')
    with j have "j' < m" by simp
    with assms(2) have "write_outcome E (writes (write_chunk E buf S ext i w) + j') = Written"
      unfolding writes_ok_def by blast
    then show ?thesis by (simp add: write_chunk_def Suc)
  qed
qed

lemma split_loop_step:
  "i < n \<Longrightarrow> write_outcome E (writes w) = Written \<Longrightarrow>
   split_loop E buf S ext n i chunks w =
     split_loop E buf S ext n (Suc i)
       (chunks @ [chunk_path (tmpdir E) i (clock E (ticks w)) ext]) (write_chunk E buf S ext i w)"
  by (subst split_loop.simps) (simp add: date_now_def writeFile_def write_chunk_def Let_def)

lemma split_loop_rejected:
  "i < n \<Longrightarrow> write_outcome E (writes w) = Rejected e left \<Longrightarrow>
   split_loop E buf S ext n i chunks w =
     (Inl e,
      w\<lparr>ticks := Suc (ticks w),
        fs := (case left of None \<Rightarrow> fs w
               | Some b \<Rightarrow> (fs w)(chunk_path (tmpdir E) i (clock E (ticks w)) ext \<mapsto> b)),
        writes := Suc (writes w)\<rparr>)"
  by (subst split_loop.simps) (simp add: date_now_def writeFile_def Let_def split: option.splits)

lemma split_loop_done: "\<not> i < n \<Longrightarrow> split_loop E buf S ext n i chunks w = (Inr chunks, w)"
  by (subst split_loop.simps) simp

lemma split_loop_fst:
  "writes_ok E w (n - i) \<Longrightarrow>
   fst (split_loop E buf S ext n i chunks w) =
     Inr (chunks @ map (\<lambda>j. chunk_path (tmpdir E) j (clock E (ticks w + j - i)) ext) [i..<n])"
proof (induction "n - i" arbitrary: i chunks w)
  case 0
  then show ?case by (simp add: split_loop_done)
next
  case (Suc k)
  then have lt: "i < n" and k: "k = n - Suc i" by auto
  from Suc.prems Suc.hyps(2) have ok: "writes_ok E w (Suc k)" by simp
  have eq: "map (\<lambda>j. chunk_path (tmpdir E) j (clock E (Suc (ticks w) + j - Suc i)) ext) [Suc i..<n]
          = map (\<lambda>j. chunk_path (tmpdir E) j (clock E (ticks w + j - i)) ext) [Suc i..<n]"
    by (rule map_cong) auto
  have "writes_ok E (write_chunk E buf S ext i w) (n - Suc i)"
    using writes_ok_rest[OF ok] k by simp
  from Suc.hyps(1)[OF k this] lt show ?case
    by (simp add: split_loop_step writes_ok_first[OF ok] upt_conv_Cons eq write_chunk_def)
qed

lemma split_loop_other:
  "split_loop E buf S ext n i chunks w = (r, w') \<Longrightarrow>
     api_calls w' = api_calls w \<and> sleeps w' = sleeps w"
proof (induction "n - i" arbitrary: i chunks w)
  case 0
  then show ?case by (simp add: split_loop_done)
next
  case (Suc k)
  then have lt: "i < n" and k: "k = n - Suc i" by auto
  show ?case
  proof (cases "write_outcome E (writes w)")
    case Written
    with Suc.prems lt have
      "split_loop E buf S ext n (Suc i)
         (chunks @ [chunk_path (tmpdir E) i (clock E (ticks w)) ext]) (write_chunk E buf S ext i w) = (r, w')"
      by (simp add: split_loop_step)
    from Suc.hyps(1)[OF k this] show ?thesis by (simp add: write_chunk_def)
  next
    case (Rejected e left)
    with Suc.prems lt show ?thesis by (auto simp: split_loop_rejected)
  qed
qed

lemma split_loop_Inr:
  "split_loop E buf S ext n i chunks w = (Inr cs, w') \<Longrightarrow> writes_ok E w (n - i)"
proof (induction "n - i" arbitrary: i chunks w)
  case 0
  then show ?case by (simp add: writes_ok_def)
next
  case (Suc k)
  then have lt: "i < n" and k: "k = n - Suc i" by auto
  show ?case
  proof (cases "write_outcome E (writes w)")
    case Written
    with Suc.prems lt have
      "split_loop E buf S ext n (Suc i)
         (chunks @ [chunk_path (tmpdir E) i (clock E (ticks w)) ext]) (write_chunk E buf S ext i w) = (Inr cs, w')"
      by (simp add: split_loop_step)
    from Suc.hyps(1)[OF k this] have "writes_ok E (write_chunk E buf S ext i w) k"
      using k by simp
    with Written have "writes_ok E w (Suc k)" by (rule writes_ok_Suc)
    with Suc.hyps(2) show ?thesis by simp
  next
    case (Rejected e left)
    with Suc.prems lt show ?thesis by (simp add: split_loop_rejected)
  qed
qed

lemma split_loop_fs_other:
  assumes "writes_ok E w (n - i)"
    and "\<And>j t. i \<le> j \<Longrightarrow> p \<noteq> chunk_path (tmpdir E) j t ext"
  shows "fs (snd (split_loop E buf S ext n i chunks w)) p = fs w p"
  using assms
proof (induction "n - i" arbitrary: i chunks w)
  case 0
  then show ?case by (simp add: split_loop_done)
next
  case (Suc k)
  then have lt: "i < n" and k: "k = n - Suc i" by auto
  from Suc.prems(1) Suc.hyps(2) have ok: "writes_ok E w (Suc k)" by simp
  have rest: "writes_ok E (write_chunk E buf S ext i w) (n - Suc i)"
    using writes_ok_rest[OF ok] k by simp
  have "fs (snd (split_loop E buf S ext n (Suc i)
       (chunks @ [chunk_path (tmpdir E) i (clock E (ticks w)) ext]) (write_chunk E buf S ext i w))) p
      = fs (write_chunk E buf S ext i w) p"
    by (rule Suc.hyps(1)[OF k rest]) (simp add: Suc.prems(2))
  also have "\<dots> = fs w p" using Suc.prems(2)[of i] by (simp add: write_chunk_def)
  finally show ?case using lt by (simp add: split_loop_step writes_ok_first[OF ok])
qed

lemma split_loop_fs_chunk:
  assumes "writes_ok E w (n - i)" and "CHR ''/'' \<notin> set ext" and "i \<le> j" "j < n"
  shows "fs (snd (split_loop E buf S ext n i chunks w))
           (chunk_path (tmpdir E) j (clock E (ticks w + j - i)) ext)
         = Some (slice buf (chunk_start j) (chunk_end S j))"
  using assms
proof (induction "n - i" arbitrary: i chunks w)
  case 0
  then show ?case by simp
next
  case (Suc k)
  then have lt: "i < n" and k: "k = n - Suc i" by auto
  from Suc.prems(1) Suc.hyps(2) have ok: "writes_ok E w (Suc k)" by simp
  let ?w1 = "write_chunk E buf S ext i w"
  let ?cs = "chunks @ [chunk_path (tmpdir E) i (clock E (ticks w)) ext]"
  have rest: "writes_ok E ?w1 (n - Suc i)"
    using writes_ok_rest[OF ok] k by simp
  note step = split_loop_step[OF lt writes_ok_first[OF ok]]
  show ?case
  proof (cases "j = i")
    case True
    have "fs (snd (split_loop E buf S ext n (Suc i) ?cs ?w1)) (chunk_path (tmpdir E) i (clock E (ticks w)) ext)
        = fs ?w1 (chunk_path (tmpdir E) i (clock E (ticks w)) ext)"
    proof (rule split_loop_fs_other[OF rest])
      fix j' t assume "Suc i \<le> j'"
      then have "i \<noteq> j'" by simp
      then show "chunk_path (tmpdir E) i (clock E (ticks w)) ext \<noteq> chunk_path (tmpdir E) j' t ext"
        using chunk_path_inj[OF _ Suc.prems(2) Suc.prems(2)] by blast
    qed
    then show ?thesis using True by (simp add: step write_chunk_def)
  next
    case False
    with Suc.prems have "Suc i \<le> j" by simp
    from Suc.hyps(1)[OF k rest Suc.prems(2) this \<open>j < n\<close>, of ?cs] \<open>Suc i \<le> j\<close>
    show ?thesis by (simp add: step write_chunk_def)
  qed
qed

lemma CHUNK_SIZE_pos: "0 < CHUNK_SIZE"
  by (simp add: CHUNK_SIZE_def)

lemma ceil_nat:
  assumes b: "0 < b"
  shows "nat \<lceil>real a / real b\<rceil> = (a + b - 1) div b"
proof -
  define q where "q = (a + b - 1) div b"
  have 1: "q * b \<le> a + b - 1" unfolding q_def by simp
  have 2: "a + b - 1 < b + q * b" unfolding q_def using b by (rule dividend_less_div_times)
  have "\<lceil>real a / real b\<rceil> = int q"
  proof (rule ceiling_unique)
    have "q * b < a + b" using 1 b by linarith
    then have "real (q * b) < real (a + b)" by (simp only: of_nat_less_iff)
    then show "of_int (int q) - 1 < real a / real b"
      using b by (simp add: field_simps)
    have "a \<le> q * b" using 2 b by linarith
    then have "real a \<le> real (q * b)" by (simp only: of_nat_le_iff)
    then show "real a / real b \<le> of_int (int q)"
      using b by (simp add: field_simps)
  qed
  then show ?thesis by (simp add: q_def)
qed

lemma numChunks_div: "numChunks S = (S + CHUNK_SIZE - 1) div CHUNK_SIZE"
  unfolding numChunks_def by (rule ceil_nat) (rule CHUNK_SIZE_pos)

lemma numChunks_ceiling: "int (numChunks S) = \<lceil>real S / real CHUNK_SIZE\<rceil>"
proof -
  have "(0::real) \<le> real S / real CHUNK_SIZE" by simp
  then have "0 \<le> \<lceil>real S / real CHUNK_SIZE\<rceil>"
    using le_of_int_ceiling[of "real S / real CHUNK_SIZE"] by linarith
  then show ?thesis by (simp add: numChunks_def)
qed

lemma less_numChunks: "k < numChunks S \<longleftrightarrow> k * CHUNK_SIZE < S"
proof -
  have "Suc k \<le> (S + CHUNK_SIZE - 1) div CHUNK_SIZE \<longleftrightarrow> Suc k * CHUNK_SIZE \<le> S + CHUNK_SIZE - 1"
    using CHUNK_SIZE_pos by (simp add: less_eq_div_iff_mult_less_eq)
  then show ?thesis using CHUNK_SIZE_pos by (auto simp: numChunks_div)
qed

lemma numChunks_covers: "S \<le> numChunks S * CHUNK_SIZE"
  using less_numChunks[of "numChunks S" S] by simp

lemma slice_chunk:
  "slice buf (chunk_start i) (chunk_end (length buf) i) = take CHUNK_SIZE (drop (i * CHUNK_SIZE) buf)"
  by (simp add: slice_def chunk_start_def chunk_end_def min_def)

lemma concat_chunks:
  "concat (map (\<lambda>i. take c (drop (i * c) buf)) [0..<n]) = take (n * c) buf"
proof (induction n)
  case 0
  then show ?case by simp
next
  case (Suc n)
  have "take (n * c) buf @ take c (drop (n * c) buf) = take (n * c + c) buf"
    by (simp add: take_add)
  with Suc show ?case by (simp add: add.commute)
qed

text \<open>
  Claim C1. When \<open>fileSize\<close> is the size of the file at \<open>filePath\<close> and none of the writes
  of the chunks is rejected, \<open>splitMP3IntoChunks\<close>
  returns \<open>\<lceil>fileSize / CHUNK_SIZE\<rceil>\<close> chunk paths, all different; the file of chunk \<open>i\<close> holds
  the bytes \<open>[i * CHUNK_SIZE, min ((i + 1) * CHUNK_SIZE) fileSize)\<close> of the original, a range
  that is not empty, that ends where the next one starts, and that ends at \<open>fileSize\<close> for
  the last chunk; and the chunk buffers, concatenated in index order, are the original bytes.
\<close>

theorem splitMP3IntoChunks_partition:
  assumes src: "fs w filePath = Some fileBuffer"
    and size: "length fileBuffer = fileSize"
    and written: "writes_ok E w (numChunks fileSize)"
  shows "\<exists>chunks w'.
     splitMP3IntoChunks E filePath fileSize w = (Inr chunks, w') \<and>
     int (length chunks) = \<lceil>real fileSize / real CHUNK_SIZE\<rceil> \<and>
     distinct chunks \<and>
     (\<forall>i<length chunks.
        fs w' (chunks ! i) =
          Some (slice fileBuffer (i * CHUNK_SIZE) (min ((i + 1) * CHUNK_SIZE) fileSize)) \<and>
        i * CHUNK_SIZE < min ((i + 1) * CHUNK_SIZE) fileSize \<and>
        (Suc i < length chunks \<longrightarrow> min ((i + 1) * CHUNK_SIZE) fileSize = (i + 1) * CHUNK_SIZE) \<and>
        (Suc i = length chunks \<longrightarrow> min ((i + 1) * CHUNK_SIZE) fileSize = fileSize)) \<and>
     concat (map (\<lambda>i. slice fileBuffer (i * CHUNK_SIZE) (min ((i + 1) * CHUNK_SIZE) fileSize))
                 [0..<length chunks]) = fileBuffer"
proof -
  let ?n = "numChunks fileSize"
  let ?ext = "extname filePath"
  let ?run = "split_loop E fileBuffer fileSize ?ext ?n 0 [] w"
  let ?path = "\<lambda>j. chunk_path (tmpdir E) j (clock E (ticks w + j)) ?ext"
  let ?chunks = "map ?path [0..<?n]"
  have chunks: "fst ?run = Inr ?chunks"
    using split_loop_fst[of E w ?n 0 fileBuffer fileSize ?ext "[]"] written by simp
  then have "?run = (Inr ?chunks, snd ?run)" by (simp add: prod_eq_iff)
  then have run: "splitMP3IntoChunks E filePath fileSize w = (Inr ?chunks, snd ?run)"
    using src by (simp add: splitMP3IntoChunks_def readFile_def)
  have len: "length ?chunks = ?n" by simp
  note ext = extname_no_slash[of filePath]
  have range: "chunk_start i = i * CHUNK_SIZE \<and> chunk_end fileSize i = min ((i + 1) * CHUNK_SIZE) fileSize" for i
    by (simp add: chunk_start_def chunk_end_def add.commute)
  have "inj_on ?path {0..<?n}"
    by (rule inj_onI) (erule chunk_path_inj[OF _ ext ext])
  then have dist: "distinct ?chunks"
    by (simp add: distinct_map)
  have each: "fs (snd ?run) (?chunks ! i) =
          Some (slice fileBuffer (i * CHUNK_SIZE) (min ((i + 1) * CHUNK_SIZE) fileSize))"
    if "i < ?n" for i
    using split_loop_fs_chunk[of E w ?n 0 ?ext i fileBuffer fileSize "[]"] that written ext
    by (simp add: range)
  have nonempty: "i * CHUNK_SIZE < min ((i + 1) * CHUNK_SIZE) fileSize" if "i < ?n" for i
    using that CHUNK_SIZE_pos by (simp add: less_numChunks)
  have inner: "min ((i + 1) * CHUNK_SIZE) fileSize = (i + 1) * CHUNK_SIZE" if "Suc i < ?n" for i
    using that by (simp add: less_numChunks)
  have last: "min ((i + 1) * CHUNK_SIZE) fileSize = fileSize" if "Suc i = ?n" for i
    using numChunks_covers[of fileSize] that by simp
  have "concat (map (\<lambda>i. slice fileBuffer (i * CHUNK_SIZE) (min ((i + 1) * CHUNK_SIZE) fileSize)) [0..<?n])
      = concat (map (\<lambda>i. take CHUNK_SIZE (drop (i * CHUNK_SIZE) fileBuffer)) [0..<?n])"
    using slice_chunk[of fileBuffer] size by (simp add: range)
  also have "\<dots> = take (?n * CHUNK_SIZE) fileBuffer" by (rule concat_chunks)
  also have "\<dots> = fileBuffer" using numChunks_covers[of fileSize] size by simp
  finally have whole: "concat (map (\<lambda>i. slice fileBuffer (i * CHUNK_SIZE) (min ((i + 1) * CHUNK_SIZE) fileSize)) [0..<?n]) = fileBuffer" .
  show ?thesis
    using run len dist each nonempty inner last whole numChunks_ceiling[of fileSize]
    by (intro exI[of _ ?chunks] exI[of _ "snd ?run"]) simp
qed

theorem splitMP3IntoChunks_partition_witness:
  "fs large_world ''/tmp/upload_1_a.mp3'' = Some large_upload \<and>
   length large_upload = 30000000 \<and>
   writes_ok example_env large_world (numChunks 30000000) \<and>
   (\<exists>chunks w'.
      splitMP3IntoChunks example_env ''/tmp/upload_1_a.mp3'' 30000000 large_world = (Inr chunks, w') \<and>
      length chunks = 2 \<and> distinct chunks \<and>
      fs w' (chunks ! 0) = Some (replicate 20971520 0) \<and>
      fs w' (chunks ! 1) = Some (replicate 9028480 0) \<and>
      replicate 20971520 0 @ replicate 9028480 0 = large_upload)"
proof -
  have h1: "fs large_world ''/tmp/upload_1_a.mp3'' = Some large_upload"
    by (simp add: large_world_def)
  have h2: "length large_upload = 30000000"
    by (simp add: large_upload_def)
  have c: "\<lceil>real 30000000 / real CHUNK_SIZE\<rceil> = 2"
    by (simp add: CHUNK_SIZE_def)
  have h3: "writes_ok example_env large_world (numChunks 30000000)"
    by (simp add: writes_ok_def example_env_def)
  from splitMP3IntoChunks_partition[OF h1 h2 h3]
  obtain chunks w' where
    r: "splitMP3IntoChunks example_env ''/tmp/upload_1_a.mp3'' 30000000 large_world = (Inr chunks, w')"
    and n: "int (length chunks) = \<lceil>real 30000000 / real CHUNK_SIZE\<rceil>"
    and d: "distinct chunks"
    and e: "\<forall>i<length chunks. fs w' (chunks ! i) =
          Some (slice large_upload (i * CHUNK_SIZE) (min ((i + 1) * CHUNK_SIZE) 30000000))"
    by blast
  from n c have len: "length chunks = 2" by simp
  from e len have "fs w' (chunks ! 0) = Some (slice large_upload (0 * CHUNK_SIZE) (min ((0 + 1) * CHUNK_SIZE) 30000000))"
    by simp
  then have e0: "fs w' (chunks ! 0) = Some (replicate 20971520 0)"
    by (simp add: slice_def large_upload_def CHUNK_SIZE_def)
  from e len have "fs w' (chunks ! 1) = Some (slice large_upload (1 * CHUNK_SIZE) (min ((1 + 1) * CHUNK_SIZE) 30000000))"
    by simp
  then have e1: "fs w' (chunks ! 1) = Some (replicate 9028480 0)"
    by (simp add: slice_def large_upload_def CHUNK_SIZE_def)
  have cat: "replicate 20971520 0 @ replicate 9028480 0 = large_upload"
    by (simp add: large_upload_def replicate_add[symmetric])
  show ?thesis using h1 h2 h3 r len d e0 e1 cat by blast
qed

section \<open>The loop over the chunks\<close>

lemma result_ok: "\<not> isl (fst r) \<Longrightarrow> \<exists>t w1. r = (Inr t, w1)"
  by (cases r, cases "fst r") auto

lemma result_failed: "isl (fst r) \<Longrightarrow> \<exists>e w1. r = (Inl e, w1)"
  by (cases r, cases "fst r") auto

lemma tc_step_ok:
  "i < length chunks \<Longrightarrow> tr (chunks ! i) w = (Inr t, w1) \<Longrightarrow>
   transcribe_chunks tr chunks i acc w = transcribe_chunks tr chunks (Suc i) (acc @ [t]) w1"
  by (subst transcribe_chunks.simps) simp

lemma tc_step_fail:
  "i < length chunks \<Longrightarrow> tr (chunks ! i) w = (Inl e, w1) \<Longrightarrow>
   transcribe_chunks tr chunks i acc w =
     (Inl (Error (msg_chunk_failed i (length chunks) (message e))), w1)"
  by (subst transcribe_chunks.simps) simp

lemma tc_done: "\<not> i < length chunks \<Longrightarrow> transcribe_chunks tr chunks i acc w = (Inr acc, w)"
  by (subst transcribe_chunks.simps) simp

lemma world_before_0: "world_before tr chunks 0 w = w"
  by (simp add: world_before_def)

lemma world_before_Suc:
  "i < length chunks \<Longrightarrow>
   world_before tr chunks (Suc i) w = snd (tr (chunks ! i) (world_before tr chunks i w))"
  by (simp add: world_before_def take_Suc_conv_app_nth)

lemma tc_fail:
  assumes "i \<le> k" "k < length chunks"
    and "\<And>j. i \<le> j \<Longrightarrow> j < k \<Longrightarrow> \<not> fails_at tr chunks w j"
    and "fails_at tr chunks w k"
  shows "transcribe_chunks tr chunks i acc (world_before tr chunks i w) =
     (Inl (Error (msg_chunk_failed k (length chunks)
        (message (projl (fst (tr (chunks ! k) (world_before tr chunks k w))))))),
      world_before tr chunks (Suc k) w)"
  using assms
proof (induction "k - i" arbitrary: i acc)
  case 0
  then have ik: "i = k" by simp
  from \<open>fails_at tr chunks w k\<close> obtain e w1
    where r: "tr (chunks ! k) (world_before tr chunks k w) = (Inl e, w1)"
    using result_failed unfolding fails_at_def by blast
  show ?case
    using \<open>k < length chunks\<close> r by (simp add: ik tc_step_fail world_before_Suc)
next
  case (Suc d)
  then have lt: "i < k" and d: "d = k - Suc i" by auto
  from Suc.prems(3)[of i] lt obtain t w1
    where r: "tr (chunks ! i) (world_before tr chunks i w) = (Inr t, w1)"
    using result_ok unfolding fails_at_def by blast
  have il: "i < length chunks" using lt Suc.prems(2) by simp
  have w1: "world_before tr chunks (Suc i) w = w1"
    using il r by (simp add: world_before_Suc)
  have "transcribe_chunks tr chunks (Suc i) (acc @ [t]) (world_before tr chunks (Suc i) w) =
     (Inl (Error (msg_chunk_failed k (length chunks)
        (message (projl (fst (tr (chunks ! k) (world_before tr chunks k w))))))),
      world_before tr chunks (Suc k) w)"
    using lt Suc.prems by (intro Suc.hyps(1)[OF d]) auto
  then show ?case using il r w1 by (simp add: tc_step_ok)
qed

lemma tc_ok:
  assumes "\<And>j. i \<le> j \<Longrightarrow> j < length chunks \<Longrightarrow> \<not> fails_at tr chunks w j"
  shows "transcribe_chunks tr chunks i acc (world_before tr chunks i w) =
     (Inr (acc @ map (\<lambda>j. projr (fst (tr (chunks ! j) (world_before tr chunks j w))))
                      [i..<length chunks]),
      world_before tr chunks (length chunks) w)"
  using assms
proof (induction "length chunks - i" arbitrary: i acc)
  case 0
  then have "\<not> i < length chunks" by simp
  moreover have "world_before tr chunks i w = world_before tr chunks (length chunks) w"
    using 0 by (simp add: world_before_def)
  ultimately show ?case by (simp add: tc_done)
next
  case (Suc d)
  then have il: "i < length chunks" and d: "d = length chunks - Suc i" by auto
  from Suc.prems[of i] il obtain t w1
    where r: "tr (chunks ! i) (world_before tr chunks i w) = (Inr t, w1)"
    using result_ok unfolding fails_at_def by blast
  have w1: "world_before tr chunks (Suc i) w = w1"
    using il r by (simp add: world_before_Suc)
  have "transcribe_chunks tr chunks (Suc i) (acc @ [t]) (world_before tr chunks (Suc i) w) =
     (Inr ((acc @ [t]) @ map (\<lambda>j. projr (fst (tr (chunks ! j) (world_before tr chunks j w))))
                      [Suc i..<length chunks]),
      world_before tr chunks (length chunks) w)"
    using Suc.prems by (intro Suc.hyps(1)[OF d]) auto
  then show ?case using il r w1 by (simp add: tc_step_ok upt_conv_Cons)
qed

lemma fs_cleanup: "fs (cleanup cs w) p = (if p \<in> set cs then None else fs w p)"
  unfolding cleanup_def by (induction cs arbitrary: w) (auto simp: unlink_def)

lemma cleanup_other:
  "api_calls (cleanup cs w) = api_calls w \<and> sleeps (cleanup cs w) = sleeps w \<and>
   ticks (cleanup cs w) = ticks w"
  unfolding cleanup_def by (induction cs arbitrary: w) (auto simp: unlink_def)

lemma process_try_direct:
  "fileSize \<le> MAX_SIZE \<Longrightarrow>
   process_try tr E filePath fileSize w =
     (case tr filePath w of
        (Inl e, w1) \<Rightarrow> (Inl e, [], w1)
      | (Inr t, w1) \<Rightarrow>
          (if trim t = [] then Inl (Error msg_empty) else Inr t, [], w1))"
  by (simp add: process_try_def split: prod.splits sum.splits)

lemma process_try_chunked:
  "MAX_SIZE < fileSize \<Longrightarrow> splitMP3IntoChunks E filePath fileSize w = (Inr chunks, w1) \<Longrightarrow>
   process_try tr E filePath fileSize w =
     (case transcribe_chunks tr chunks 0 [] w1 of
        (Inl e, w2) \<Rightarrow> (Inl e, chunks, w2)
      | (Inr ts, w2) \<Rightarrow>
          (if trim (join ts separator) = [] then Inl (Error msg_empty)
           else Inr (join ts separator), chunks, w2))"
  by (simp add: process_try_def Let_def split: prod.splits sum.splits)

lemma body_chunked_failure:
  assumes fmt: "isSupportedFormat originalName"
    and big: "MAX_SIZE < fileSize"
    and split: "splitMP3IntoChunks E filePath fileSize w = (Inr chunks, w1)"
    and k: "k < length chunks" "fails_at tr chunks w1 k" "\<And>j. j < k \<Longrightarrow> \<not> fails_at tr chunks w1 j"
  shows "processAudioFile_body tr E filePath fileSize originalName w =
     (Inl (Error (msg_chunk_failed k (length chunks)
        (message (projl (fst (tr (chunks ! k) (world_before tr chunks k w1))))))),
      cleanup chunks (world_before tr chunks (Suc k) w1))"
proof -
  have "transcribe_chunks tr chunks 0 [] (world_before tr chunks 0 w1) =
     (Inl (Error (msg_chunk_failed k (length chunks)
        (message (projl (fst (tr (chunks ! k) (world_before tr chunks k w1))))))),
      world_before tr chunks (Suc k) w1)"
    using k by (intro tc_fail) auto
  then show ?thesis
    using fmt by (simp add: processAudioFile_body_def process_try_chunked[OF big split] world_before_0)
qed

lemma body_chunked_success:
  assumes fmt: "isSupportedFormat originalName"
    and big: "MAX_SIZE < fileSize"
    and split: "splitMP3IntoChunks E filePath fileSize w = (Inr chunks, w1)"
    and ok: "\<And>j. j < length chunks \<Longrightarrow> \<not> fails_at tr chunks w1 j"
  shows "processAudioFile_body tr E filePath fileSize originalName w =
     (let ts = map (\<lambda>j. projr (fst (tr (chunks ! j) (world_before tr chunks j w1)))) [0..<length chunks]
      in (if trim (join ts separator) = [] then Inl (Error msg_empty) else Inr (join ts separator),
          cleanup chunks (world_before tr chunks (length chunks) w1)))"
proof -
  have "transcribe_chunks tr chunks 0 [] (world_before tr chunks 0 w1) =
     (Inr ([] @ map (\<lambda>j. projr (fst (tr (chunks ! j) (world_before tr chunks j w1)))) [0..<length chunks]),
      world_before tr chunks (length chunks) w1)"
    using ok by (intro tc_ok) auto
  then show ?thesis
    using fmt by (simp add: processAudioFile_body_def process_try_chunked[OF big split] world_before_0 Let_def)
qed

lemma first_failure:
  fixes P :: "nat \<Rightarrow> bool"
  assumes "k < n" "P k"
  shows "\<exists>k0<n. P k0 \<and> (\<forall>j<k0. \<not> P j)"
proof -
  define k0 where "k0 = (LEAST j. P j)"
  have a: "P k0" unfolding k0_def using assms(2) by (rule LeastI)
  have b: "k0 \<le> k" unfolding k0_def using assms(2) by (rule Least_le)
  have c: "\<not> P j" if "j < k0" for j using that unfolding k0_def by (rule not_less_Least)
  from b assms(1) have "k0 < n" by simp
  with a c show ?thesis by blast
qed

section \<open>The route of \<open>route.ts\<close>: one call of the API per transcription\<close>

lemma transcribeAudio_eq:
  "transcribeAudio E p w =
     (case api E (length (api_calls w)) of ApiText t \<Rightarrow> Inr t | ApiError e \<Rightarrow> Inl e,
      w\<lparr>api_calls := api_calls w @ [p]\<rparr>)"
  by (simp add: transcribeAudio_def transcriptions_create_def split: api_result.splits)

lemma wb_simple:
  "k \<le> length chunks \<Longrightarrow>
   world_before (transcribeAudio E) chunks k w = w\<lparr>api_calls := api_calls w @ take k chunks\<rparr>"
proof (induction k)
  case 0
  then show ?case by (simp add: world_before_0)
next
  case (Suc k)
  then show ?case
    by (simp add: world_before_Suc transcribeAudio_eq take_Suc_conv_app_nth)
qed

lemma fails_at_simple:
  "k < length chunks \<Longrightarrow>
   fails_at (transcribeAudio E) chunks w k = is_api_error (api E (length (api_calls w) + k))"
  by (simp add: fails_at_def wb_simple transcribeAudio_eq is_api_error_def split: api_result.splits)

lemma fragment_simple:
  "k < length chunks \<Longrightarrow> \<not> is_api_error (api E (length (api_calls w) + k)) \<Longrightarrow>
   projr (fst (transcribeAudio E (chunks ! k) (world_before (transcribeAudio E) chunks k w))) =
     the_text (api E (length (api_calls w) + k))"
  by (simp add: wb_simple transcribeAudio_eq is_api_error_def the_text_def split: api_result.splits)



lemma split_result:
  assumes "splitMP3IntoChunks E p S w = (Inr chunks, w1)"
  shows "chunks = map (\<lambda>j. chunk_path (tmpdir E) j (clock E (ticks w + j)) (extname p)) [0..<numChunks S]
         \<and> api_calls w1 = api_calls w \<and> sleeps w1 = sleeps w"
proof -
  from assms obtain buf where buf: "fs w p = Some buf"
    by (auto simp: splitMP3IntoChunks_def readFile_def split: option.splits)
  with assms have run: "split_loop E buf S (extname p) (numChunks S) 0 [] w = (Inr chunks, w1)"
    by (simp add: splitMP3IntoChunks_def readFile_def)
  from split_loop_Inr[OF run] have "writes_ok E w (numChunks S)" by simp
  from split_loop_fst[of E w "numChunks S" 0 buf S "extname p" "[]"] this run
  have "chunks = map (\<lambda>j. chunk_path (tmpdir E) j (clock E (ticks w + j)) (extname p)) [0..<numChunks S]"
    by simp
  with split_loop_other[OF run] show ?thesis by simp
qed

lemma split_succeeds:
  assumes "fs w p = Some buf" and "writes_ok E w (numChunks S)"
  shows "\<exists>chunks w1. splitMP3IntoChunks E p S w = (Inr chunks, w1)"
proof -
  let ?run = "split_loop E buf S (extname p) (numChunks S) 0 [] w"
  from split_loop_fst[of E w "numChunks S" 0 buf S "extname p" "[]"] assms(2)
  obtain chunks where "fst ?run = Inr chunks" by simp
  then obtain w1 where "?run = (Inr chunks, w1)" by (cases ?run) simp
  with assms(1) show ?thesis by (simp add: splitMP3IntoChunks_def readFile_def)
qed

lemma body_split_failed:
  assumes "isSupportedFormat originalName" "MAX_SIZE < fileSize"
    and "fst (splitMP3IntoChunks E filePath fileSize w) = Inl e"
  shows "fst (processAudioFile_body tr E filePath fileSize originalName w) = Inl e"
proof -
  from assms(3) obtain w1 where "splitMP3IntoChunks E filePath fileSize w = (Inl e, w1)"
    by (cases "splitMP3IntoChunks E filePath fileSize w") simp
  with assms(1,2) show ?thesis
    by (simp add: processAudioFile_body_def process_try_def)
qed

lemma processAudioFile_direct:
  assumes fmt: "isSupportedFormat originalName" and small: "fileSize \<le> MAX_SIZE"
  shows "processAudioFile E filePath fileSize originalName w =
     (case api E (length (api_calls w)) of
        ApiText t \<Rightarrow> if trim t = [] then Inl (Error msg_empty) else Inr t
      | ApiError e \<Rightarrow> Inl e,
      w\<lparr>api_calls := api_calls w @ [filePath]\<rparr>)"
  using fmt
  by (simp add: processAudioFile_def processAudioFile_body_def process_try_direct[OF small]
      transcribeAudio_eq cleanup_def split: api_result.splits)

lemma processAudioFile_chunked_failure:
  assumes fmt: "isSupportedFormat originalName"
    and big: "MAX_SIZE < fileSize"
    and split: "splitMP3IntoChunks E filePath fileSize w = (Inr chunks, w1)"
    and k: "k < length chunks" "api E (length (api_calls w) + k) = ApiError e"
      "\<And>j. j < k \<Longrightarrow> \<not> is_api_error (api E (length (api_calls w) + j))"
  shows "processAudioFile E filePath fileSize originalName w =
     (Inl (Error (msg_chunk_failed k (length chunks) (message e))),
      cleanup chunks (w1\<lparr>api_calls := api_calls w @ take (Suc k) chunks\<rparr>))"
proof -
  have b: "api_calls w1 = api_calls w" using split_result[OF split] by simp
  have "processAudioFile_body (transcribeAudio E) E filePath fileSize originalName w =
     (Inl (Error (msg_chunk_failed k (length chunks)
        (message (projl (fst (transcribeAudio E (chunks ! k)
           (world_before (transcribeAudio E) chunks k w1))))))),
      cleanup chunks (world_before (transcribeAudio E) chunks (Suc k) w1))"
    using k by (intro body_chunked_failure[OF fmt big split]) (simp_all add: fails_at_simple b is_api_error_def)
  then show ?thesis
    using k(1,2) by (simp add: processAudioFile_def b wb_simple transcribeAudio_eq)
qed

lemma processAudioFile_chunked_success:
  assumes fmt: "isSupportedFormat originalName"
    and big: "MAX_SIZE < fileSize"
    and split: "splitMP3IntoChunks E filePath fileSize w = (Inr chunks, w1)"
    and ok: "\<And>j. j < length chunks \<Longrightarrow> \<not> is_api_error (api E (length (api_calls w) + j))"
  shows "processAudioFile E filePath fileSize originalName w =
     (let ts = map (\<lambda>j. the_text (api E (length (api_calls w) + j))) [0..<length chunks]
      in (if trim (join ts separator) = [] then Inl (Error msg_empty) else Inr (join ts separator),
          cleanup chunks (w1\<lparr>api_calls := api_calls w @ chunks\<rparr>)))"
proof -
  have b: "api_calls w1 = api_calls w" using split_result[OF split] by simp
  have ts: "map (\<lambda>j. projr (fst (transcribeAudio E (chunks ! j)
               (world_before (transcribeAudio E) chunks j w1)))) [0..<length chunks]
          = map (\<lambda>j. the_text (api E (length (api_calls w) + j))) [0..<length chunks]"
    by (rule map_cong) (simp_all add: fragment_simple b ok)
  have "processAudioFile_body (transcribeAudio E) E filePath fileSize originalName w =
     (let ts = map (\<lambda>j. projr (fst (transcribeAudio E (chunks ! j)
                 (world_before (transcribeAudio E) chunks j w1)))) [0..<length chunks]
      in (if trim (join ts separator) = [] then Inl (Error msg_empty) else Inr (join ts separator),
          cleanup chunks (world_before (transcribeAudio E) chunks (length chunks) w1)))"
    using ok by (intro body_chunked_success[OF fmt big split]) (simp add: fails_at_simple b)
  then show ?thesis
    by (simp add: processAudioFile_def ts b wb_simple)
qed

section \<open>Evaluating the example requests\<close>

lemmas str_eval = toLowerCase_def lower_char_def upper_letters_def lower_letters_def extname_def

lemma numChunks_30: "numChunks 30000000 = 2"
  by (simp add: numChunks_def CHUNK_SIZE_def)

lemma show_nat_t0: "show_nat 1700000000000 = ''1700000000000''"
  by (simp add: show_nat.simps digit_char_def)

lemma show_nat_t1: "show_nat 1700000000001 = ''1700000000001''"
  by (simp add: show_nat.simps digit_char_def)
lemma show_nat_0: "show_nat 0 = ''0''"
  by (simp add: show_nat.simps digit_char_def)

lemma show_nat_1: "show_nat 1 = ''1''"
  by (simp add: show_nat.simps digit_char_def)

lemma show_nat_Suc0: "show_nat (Suc 0) = ''1''"
  by (simp add: show_nat.simps digit_char_def)

lemma path_prefix_tmp: "path_prefix ''/tmp'' = ''/tmp/''"
  by (simp add: path_prefix_def normalize_step_def)

lemma chunk_path_tmp:
  "CHR ''/'' \<notin> set e \<Longrightarrow>
   chunk_path ''/tmp'' i t e = ''/tmp/chunk_'' @ show_nat i @ ''_'' @ show_nat t @ e"
  by (simp add: chunk_path_plain path_prefix_tmp)

lemma split_example:
  "splitMP3IntoChunks E ''/tmp/upload_1_a.mp3'' 30000000 large_world =
     (Inr [''/tmp/chunk_0_1700000000000.mp3'', ''/tmp/chunk_1_1700000000001.mp3''], chunked_world)"
  if "clock E = clock example_env" "tmpdir E = ''/tmp''" "write_outcome E = (\<lambda>k. Written)"
  using that
  by (simp add: splitMP3IntoChunks_def readFile_def numChunks_30 large_world_def example_env_def
      split_loop_step split_loop_done write_chunk_def chunk_path_tmp extname_def
      show_nat_t0 show_nat_t1 show_nat_0 show_nat_1 show_nat_Suc0 slice_def chunk_start_def
      chunk_end_def CHUNK_SIZE_def large_upload_def chunked_world_def numeral_2_eq_2
      fun_upd_twist)

lemma fmt_example: "isSupportedFormat ''a.mp3''"
  by (simp add: isSupportedFormat_def str_eval SUPPORTED_FORMATS_def)

section \<open>Abort and cleanup\<close>

text \<open>
  Once \<open>splitMP3IntoChunks\<close> has returned its \<open>chunks\<close> for a supported file above the
  threshold, they are registered for the \<open>finally\<close> block. Let \<open>processAudioFile\<close> (of either
  route file: \<open>tr\<close> is its \<open>transcribeAudio\<close>) end with result \<open>r\<close> in world \<open>w'\<close>. Then no
  chunk file is left in \<open>w'\<close>, whatever the result; if the transcription of any chunk fails,
  \<open>r\<close> is a failure, which carries no transcript; and the failure names the first chunk
  that failed and the message of its error.
\<close>

lemma cleanup_after_split:
  assumes fmt: "isSupportedFormat originalName"
    and big: "MAX_SIZE < fileSize"
    and split: "splitMP3IntoChunks E filePath fileSize w = (Inr chunks, w1)"
    and run: "processAudioFile_body tr E filePath fileSize originalName w = (r, w')"
  shows "(\<forall>c \<in> set chunks. fs w' c = None) \<and>
         ((\<exists>k<length chunks. fails_at tr chunks w1 k) \<longrightarrow> isl r) \<and>
         (\<forall>k<length chunks. fails_at tr chunks w1 k \<and> (\<forall>j<k. \<not> fails_at tr chunks w1 j) \<longrightarrow>
            r = Inl (Error (msg_chunk_failed k (length chunks)
                  (message (projl (fst (tr (chunks ! k) (world_before tr chunks k w1))))))))"
proof (intro conjI)
  obtain r0 w2 where loop: "transcribe_chunks tr chunks 0 [] w1 = (r0, w2)"
    by (cases "transcribe_chunks tr chunks 0 [] w1")
  have "snd (process_try tr E filePath fileSize w) = (chunks, w2)"
    using loop by (cases r0) (simp_all add: process_try_chunked[OF big split])
  moreover have "w' = cleanup (fst (snd (process_try tr E filePath fileSize w)))
                        (snd (snd (process_try tr E filePath fileSize w)))"
    using fmt run by (simp add: processAudioFile_body_def split: prod.splits)
  ultimately have "w' = cleanup chunks w2" by simp
  then show "\<forall>c \<in> set chunks. fs w' c = None" by (simp add: fs_cleanup)
  show first: "\<forall>k<length chunks. fails_at tr chunks w1 k \<and> (\<forall>j<k. \<not> fails_at tr chunks w1 j) \<longrightarrow>
            r = Inl (Error (msg_chunk_failed k (length chunks)
                  (message (projl (fst (tr (chunks ! k) (world_before tr chunks k w1)))))))"
  proof (intro allI impI)
    fix k assume "k < length chunks"
      and "fails_at tr chunks w1 k \<and> (\<forall>j<k. \<not> fails_at tr chunks w1 j)"
    then have "processAudioFile_body tr E filePath fileSize originalName w =
       (Inl (Error (msg_chunk_failed k (length chunks)
          (message (projl (fst (tr (chunks ! k) (world_before tr chunks k w1))))))),
        cleanup chunks (world_before tr chunks (Suc k) w1))"
      by (intro body_chunked_failure[OF fmt big split]) auto
    with run show "r = Inl (Error (msg_chunk_failed k (length chunks)
                  (message (projl (fst (tr (chunks ! k) (world_before tr chunks k w1)))))))"
      by simp
  qed
  show "(\<exists>k<length chunks. fails_at tr chunks w1 k) \<longrightarrow> isl r"
  proof
    assume "\<exists>k<length chunks. fails_at tr chunks w1 k"
    then obtain k where "k < length chunks" "fails_at tr chunks w1 k" by blast
    then obtain k0 where "k0 < length chunks" "fails_at tr chunks w1 k0"
      "\<forall>j<k0. \<not> fails_at tr chunks w1 j"
      using first_failure[of k "length chunks" "fails_at tr chunks w1"] by blast
    with first show "isl r" by auto
  qed
qed

lemma body_split_rejected:
  assumes "isSupportedFormat originalName" "MAX_SIZE < fileSize"
    and "splitMP3IntoChunks E filePath fileSize w = (Inl e, w1)"
  shows "processAudioFile_body tr E filePath fileSize originalName w = (Inl e, w1)"
  using assms by (simp add: processAudioFile_body_def process_try_def cleanup_def)

lemma split_full_disk:
  "splitMP3IntoChunks full_disk_env ''/tmp/upload_1_a.mp3'' 30000000 large_world =
     (Inl no_space,
      large_world\<lparr>ticks := 2, writes := 2,
        fs := (fs large_world)(''/tmp/chunk_0_1700000000000.mp3'' \<mapsto> replicate 20971520 0)\<rparr>)"
proof -
  have w0: "write_outcome full_disk_env 0 = Written"
    and w1: "write_outcome full_disk_env (Suc 0) = Rejected no_space None"
    and env: "tmpdir full_disk_env = ''/tmp''" "clock full_disk_env 0 = 1700000000000"
    by (simp_all add: full_disk_env_def example_env_def)
  show ?thesis
    by (simp add: splitMP3IntoChunks_def readFile_def numChunks_30 large_world_def
        split_loop_step w0 split_loop_rejected[where e = no_space and left = None] w1 env
        write_chunk_def chunk_path_tmp extname_def show_nat_t0 show_nat_0 slice_def
        chunk_start_def chunk_end_def CHUNK_SIZE_def large_upload_def numeral_2_eq_2)
qed

text \<open>
  Claim C2 fails when a write of the split is rejected: the chunks are registered for the
  \<open>finally\<close> block only when \<open>splitMP3IntoChunks\<close> returns, so that the block has nothing to
  unlink when it throws. With a disk that fills up at the second chunk of a supported upload
  of 30 000 000 bytes, \<open>processAudioFile\<close> of either route file fails with the error of the
  write, before any call of the API, and the file of the first chunk is still in the file
  system.
\<close>

theorem processAudioFile_keeps_chunk_of_failed_split:
  "fst (processAudioFile full_disk_env ''/tmp/upload_1_a.mp3'' 30000000 ''a.mp3'' large_world) =
     Inl no_space \<and>
   fs (snd (processAudioFile full_disk_env ''/tmp/upload_1_a.mp3'' 30000000 ''a.mp3'' large_world))
     ''/tmp/chunk_0_1700000000000.mp3'' = Some (replicate 20971520 0) \<and>
   api_calls (snd (processAudioFile full_disk_env ''/tmp/upload_1_a.mp3'' 30000000 ''a.mp3''
     large_world)) = [] \<and>
   fst (processAudioFile_retry full_disk_env ''/tmp/upload_1_a.mp3'' 30000000 ''a.mp3'' large_world) =
     Inl no_space \<and>
   fs (snd (processAudioFile_retry full_disk_env ''/tmp/upload_1_a.mp3'' 30000000 ''a.mp3''
     large_world)) ''/tmp/chunk_0_1700000000000.mp3'' = Some (replicate 20971520 0) \<and>
   api_calls (snd (processAudioFile_retry full_disk_env ''/tmp/upload_1_a.mp3'' 30000000 ''a.mp3''
     large_world)) = []"
proof -
  have big: "MAX_SIZE < 30000000" by (simp add: MAX_SIZE_def)
  note run = body_split_rejected[OF fmt_example big split_full_disk]
  show ?thesis
    unfolding processAudioFile_def processAudioFile_retry_def run
    by (simp add: large_world_def)
qed

section \<open>The calls of the API\<close>




section \<open>Blank transcriptions\<close>

lemma dropWhile_all: "(\<forall>c \<in> set s. P c) \<Longrightarrow> dropWhile P s = []"
  by (induction s) auto

lemma dropWhile_blank:
  assumes "\<forall>c \<in> set (dropWhile P s). P c"
  shows "dropWhile P s = []"
proof (cases "dropWhile P s")
  case Nil
  then show ?thesis .
next
  case (Cons x xs)
  then have "\<not> P x" using hd_dropWhile[of P s] by simp
  moreover have "P x" using assms Cons by simp
  ultimately show ?thesis by simp
qed

lemma trim_empty_iff: "trim s = [] \<longleftrightarrow> (\<forall>c \<in> set s. is_whitespace c)"
proof
  assume "trim s = []"
  then have "dropWhile is_whitespace (rev (dropWhile is_whitespace s)) = []"
    unfolding trim_def by simp
  then have "\<forall>c \<in> set (rev (dropWhile is_whitespace s)). is_whitespace c"
    by (simp only: dropWhile_eq_Nil_conv)
  then have "\<forall>c \<in> set (dropWhile is_whitespace s). is_whitespace c"
    by (simp only: set_rev)
  then have "dropWhile is_whitespace s = []" by (rule dropWhile_blank)
  then show "\<forall>c \<in> set s. is_whitespace c"
    by (simp only: dropWhile_eq_Nil_conv)
next
  assume "\<forall>c \<in> set s. is_whitespace c"
  then have e: "dropWhile is_whitespace s = []" by (rule dropWhile_all)
  show "trim s = []" unfolding trim_def e by simp
qed

lemma separator_blank: "\<forall>c \<in> set separator. is_whitespace c"
  by (simp add: separator_def is_whitespace_def)

lemma set_join_subset: "set (join ts sep) \<subseteq> (\<Union>t \<in> set ts. set t) \<union> set sep"
  by (induction ts sep rule: join.induct) auto

lemma join_blank:
  assumes "\<forall>t \<in> set ts. trim t = []"
  shows "trim (join ts separator) = []"
proof -
  have "is_whitespace c" if "c \<in> set (join ts separator)" for c
    using that set_join_subset[of ts separator] assms separator_blank
    by (auto simp: trim_empty_iff)
  then show ?thesis by (simp add: trim_empty_iff)
qed

lemma msg_empty_distinct:
  "msg_empty \<noteq> msg_unsupported ext \<and> msg_empty \<noteq> msg_chunk_failed k n m"
  by (simp add: msg_empty_def msg_unsupported_def msg_chunk_failed_def)

text \<open>
  Claim C6. When every fragment obtained is blank (a single blank transcription for a file
  within the threshold; above it, the upload cut into its chunks and a blank transcription
  of every chunk), \<open>processAudioFile\<close>
  fails with the error of an empty transcription, whose message differs from those of the
  other errors it raises itself; it does not return the empty transcript.
\<close>

theorem processAudioFile_rejects_blank:
  assumes fmt: "isSupportedFormat originalName"
    and src: "MAX_SIZE < fileSize \<longrightarrow>
                fs w filePath \<noteq> None \<and> writes_ok E w (numChunks fileSize)"
    and blank: "\<forall>j < (if fileSize \<le> MAX_SIZE then 1 else numChunks fileSize).
                  \<exists>t. api E (length (api_calls w) + j) = ApiText t \<and> trim t = []"
  shows "fst (processAudioFile E filePath fileSize originalName w) = Inl (Error msg_empty) \<and>
         (\<forall>ext. msg_empty \<noteq> msg_unsupported ext) \<and>
         (\<forall>k n m. msg_empty \<noteq> msg_chunk_failed k n m)"
proof -
  let ?b = "length (api_calls w)"
  have "fst (processAudioFile E filePath fileSize originalName w) = Inl (Error msg_empty)"
  proof (cases "fileSize \<le> MAX_SIZE")
    case True
    with blank obtain t where "api E ?b = ApiText t" "trim t = []" by auto
    then show ?thesis by (simp add: processAudioFile_direct[OF fmt True])
  next
    case False
    then have big: "MAX_SIZE < fileSize" by simp
    with src obtain buf where "fs w filePath = Some buf" "writes_ok E w (numChunks fileSize)"
      by auto
    then obtain chunks w1 where split: "splitMP3IntoChunks E filePath fileSize w = (Inr chunks, w1)"
      using split_succeeds by blast
    from split_result[OF split] have n: "length chunks = numChunks fileSize" by simp
    have each: "\<exists>t. api E (?b + j) = ApiText t \<and> trim t = []" if "j < length chunks" for j
      using blank that False n by simp
    have ok: "\<not> is_api_error (api E (?b + j))" if "j < length chunks" for j
      using each[OF that] by (auto simp: is_api_error_def)
    have "\<forall>t \<in> set (map (\<lambda>j. the_text (api E (?b + j))) [0..<length chunks]). trim t = []"
      using each by (fastforce simp: the_text_def)
    then have "trim (join (map (\<lambda>j. the_text (api E (?b + j))) [0..<length chunks]) separator) = []"
      by (rule join_blank)
    then show ?thesis
      by (simp add: processAudioFile_chunked_success[OF fmt big split ok] Let_def)
  qed
  then show ?thesis using msg_empty_distinct by blast
qed

theorem processAudioFile_rejects_blank_witness:
  "isSupportedFormat ''a.mp3'' \<and>
   fs large_world ''/tmp/upload_1_a.mp3'' \<noteq> None \<and>
   writes_ok blank_env large_world (numChunks 30000000) \<and>
   numChunks 30000000 = 2 \<and>
   api blank_env (length (api_calls large_world) + 0) = ApiText [CHR 0x20, CHR 0x0A] \<and>
   api blank_env (length (api_calls large_world) + 1) = ApiText [CHR 0x20, CHR 0x0A] \<and>
   trim [CHR 0x20, CHR 0x0A] = [] \<and>
   fst (processAudioFile blank_env ''/tmp/upload_1_a.mp3'' 30000000 ''a.mp3'' large_world) =
     Inl (Error msg_empty) \<and>
   api blank_env (length (api_calls small_world) + 0) = ApiText [CHR 0x20, CHR 0x0A] \<and>
   fst (processAudioFile blank_env ''/tmp/upload_1_a.mp3'' 3 ''a.mp3'' small_world) =
     Inl (Error msg_empty)"
proof -
  have big: "\<not> 30000000 \<le> MAX_SIZE" and small: "3 \<le> MAX_SIZE" by (simp_all add: MAX_SIZE_def)
  have src: "fs large_world ''/tmp/upload_1_a.mp3'' \<noteq> None" by (simp add: large_world_def)
  have written: "writes_ok blank_env large_world (numChunks 30000000)"
    by (simp add: writes_ok_def blank_env_def example_env_def)
  have blank: "\<exists>t. api blank_env k = ApiText t \<and> trim t = []" for k
    by (simp add: blank_env_def trim_def is_whitespace_def)
  from processAudioFile_rejects_blank[OF fmt_example, where fileSize = 30000000
      and w = large_world and filePath = "''/tmp/upload_1_a.mp3''" and E = blank_env]
    src written blank
  have a: "fst (processAudioFile blank_env ''/tmp/upload_1_a.mp3'' 30000000 ''a.mp3'' large_world) =
     Inl (Error msg_empty)" by simp
  from processAudioFile_rejects_blank[OF fmt_example, where fileSize = 3
      and w = small_world and filePath = "''/tmp/upload_1_a.mp3''" and E = blank_env]
    small blank
  have b: "fst (processAudioFile blank_env ''/tmp/upload_1_a.mp3'' 3 ''a.mp3'' small_world) =
     Inl (Error msg_empty)" by simp
  have texts: "api blank_env k = ApiText [CHR 0x20, CHR 0x0A]" for k
    by (simp add: blank_env_def)
  have blank': "trim [CHR 0x20, CHR 0x0A] = []"
    by (simp add: trim_def is_whitespace_def)
  from a b src written texts blank' fmt_example numChunks_30 show ?thesis by simp
qed

section \<open>Unsupported formats\<close>

lemma body_unsupported:
  "\<not> isSupportedFormat originalName \<Longrightarrow>
   processAudioFile_body tr E filePath fileSize originalName w =
     (Inl (Error (msg_unsupported (toLowerCase (extname originalName)))), w)"
  by (simp add: processAudioFile_body_def)

text \<open>
  Claim C7. When the lower-cased extension of the file name is not in the allow-list,
  \<open>processAudioFile\<close> of either route file fails with the message that names the extension,
  and the world is unchanged: no call of the API was made and no chunk was written.
\<close>

theorem processAudioFile_rejects_unsupported:
  assumes "toLowerCase (extname originalName) \<notin> set SUPPORTED_FORMATS"
  shows "processAudioFile E filePath fileSize originalName w =
           (Inl (Error (''Formato '' @ toLowerCase (extname originalName) @
              '' no soportado. Por favor, convierte tu audio a MP3 primero usando un convertidor online.'')),
            w) \<and>
         processAudioFile_retry E filePath fileSize originalName w =
           (Inl (Error (''Formato '' @ toLowerCase (extname originalName) @
              '' no soportado. Por favor, convierte tu audio a MP3 primero usando un convertidor online.'')),
            w)"
proof -
  from assms have "\<not> isSupportedFormat originalName"
    by (simp add: isSupportedFormat_def)
  then show ?thesis
    by (simp add: processAudioFile_def processAudioFile_retry_def body_unsupported msg_unsupported_def)
qed

theorem processAudioFile_rejects_unsupported_witness:
  "toLowerCase (extname ''voz.AIFF'') \<notin> set SUPPORTED_FORMATS \<and>
   processAudioFile example_env ''/tmp/upload_1_voz.AIFF'' 3 ''voz.AIFF'' small_world =
     (Inl (Error ''Formato .aiff no soportado. Por favor, convierte tu audio a MP3 primero usando un convertidor online.''),
      small_world) \<and>
   api_calls small_world = []"
proof -
  have h: "toLowerCase (extname ''voz.AIFF'') \<notin> set SUPPORTED_FORMATS"
    by (simp add: str_eval SUPPORTED_FORMATS_def)
  have e: "toLowerCase (extname ''voz.AIFF'') = ''.aiff''"
    by (simp add: str_eval)
  from processAudioFile_rejects_unsupported[OF h, of example_env "''/tmp/upload_1_voz.AIFF''" 3 small_world]
  show ?thesis using h by (simp add: e small_world_def)
qed

section \<open>The joined transcript\<close>

text \<open>
  Claim C8. When \<open>processAudioFile\<close> returns a transcript: for a file within the threshold it
  is the text of the one call; above it, every one of the \<open>numChunks fileSize\<close> calls returned
  a text, call \<open>j\<close> was made on chunk \<open>j\<close>, and the transcript is the texts of the calls,
  in call order, joined with the separator of two line feeds.
\<close>

theorem processAudioFile_joins_in_order:
  assumes run: "processAudioFile E filePath fileSize originalName w = (Inr transcript, w')"
  shows "(fileSize \<le> MAX_SIZE \<longrightarrow> api E (length (api_calls w)) = ApiText transcript) \<and>
         (MAX_SIZE < fileSize \<longrightarrow>
            (\<exists>chunks. length chunks = numChunks fileSize \<and>
               (\<forall>i<length chunks. \<exists>now. chunks ! i = chunk_path (tmpdir E) i now (extname filePath)) \<and>
               api_calls w' = api_calls w @ chunks) \<and>
            (\<forall>j<numChunks fileSize. \<exists>t. api E (length (api_calls w) + j) = ApiText t) \<and>
            transcript =
              join (map (\<lambda>j. the_text (api E (length (api_calls w) + j))) [0..<numChunks fileSize])
                [CHR 0x0A, CHR 0x0A])"
proof -
  let ?b = "length (api_calls w)"
  have fmt: "isSupportedFormat originalName"
  proof (rule ccontr)
    assume "\<not> isSupportedFormat originalName"
    then show False using run by (simp add: processAudioFile_def body_unsupported)
  qed
  have direct: "api E ?b = ApiText transcript" if small: "fileSize \<le> MAX_SIZE"
    using run unfolding processAudioFile_direct[OF fmt small]
    by (cases "api E ?b") (simp_all split: if_splits)
  have chunked:
    "(\<exists>chunks. length chunks = numChunks fileSize \<and>
        (\<forall>i<length chunks. \<exists>now. chunks ! i = chunk_path (tmpdir E) i now (extname filePath)) \<and>
        api_calls w' = api_calls w @ chunks) \<and>
     (\<forall>j<numChunks fileSize. \<exists>t. api E (?b + j) = ApiText t) \<and>
     transcript = join (map (\<lambda>j. the_text (api E (?b + j))) [0..<numChunks fileSize]) [CHR 0x0A, CHR 0x0A]"
    if big: "MAX_SIZE < fileSize"
  proof -
    obtain rs w1 where sp: "splitMP3IntoChunks E filePath fileSize w = (rs, w1)"
      by (cases "splitMP3IntoChunks E filePath fileSize w")
    have "\<exists>chunks. rs = Inr chunks"
    proof (cases rs)
      case (Inl e)
      from body_split_rejected[OF fmt big sp[unfolded Inl], of "transcribeAudio E"] run
      show ?thesis by (simp add: processAudioFile_def)
    next
      case (Inr chunks)
      then show ?thesis by blast
    qed
    with sp obtain chunks where split: "splitMP3IntoChunks E filePath fileSize w = (Inr chunks, w1)"
      by blast
    note sr = split_result[OF split]
    from sr have n: "length chunks = numChunks fileSize" by simp
    have ok: "\<not> is_api_error (api E (?b + j))" if "j < length chunks" for j
    proof
      assume "is_api_error (api E (?b + j))"
      with that obtain k0 where k0: "k0 < length chunks" "is_api_error (api E (?b + k0))"
        "\<forall>j<k0. \<not> is_api_error (api E (?b + j))"
        using first_failure[of j "length chunks" "\<lambda>j. is_api_error (api E (?b + j))"] by blast
      from k0(2) obtain e where e: "api E (?b + k0) = ApiError e"
        by (cases "api E (?b + k0)") (simp_all add: is_api_error_def)
      from processAudioFile_chunked_failure[OF fmt big split k0(1) e] k0(3) run
      show False by simp
    qed
    from processAudioFile_chunked_success[OF fmt big split ok] run
    have t: "transcript = join (map (\<lambda>j. the_text (api E (?b + j))) [0..<length chunks]) separator"
      and w': "w' = cleanup chunks (w1\<lparr>api_calls := api_calls w @ chunks\<rparr>)"
      by (simp_all add: Let_def split: if_splits)
    have calls: "api_calls w' = api_calls w @ chunks" by (simp add: w' cleanup_other)
    have order: "\<forall>i<length chunks. \<exists>now. chunks ! i = chunk_path (tmpdir E) i now (extname filePath)"
    proof (intro allI impI)
      fix i assume "i < length chunks"
      with sr n have "chunks ! i = chunk_path (tmpdir E) i (clock E (ticks w + i)) (extname filePath)"
        by simp
      then show "\<exists>now. chunks ! i = chunk_path (tmpdir E) i now (extname filePath)" ..
    qed
    have texts: "\<forall>j<numChunks fileSize. \<exists>t. api E (?b + j) = ApiText t"
    proof (intro allI impI)
      fix j assume "j < numChunks fileSize"
      with ok[of j] n show "\<exists>t. api E (?b + j) = ApiText t"
        by (cases "api E (?b + j)") (simp_all add: is_api_error_def)
    qed
    from n calls order have "\<exists>chunks. length chunks = numChunks fileSize \<and>
        (\<forall>i<length chunks. \<exists>now. chunks ! i = chunk_path (tmpdir E) i now (extname filePath)) \<and>
        api_calls w' = api_calls w @ chunks" by blast
    with texts t n show ?thesis by (simp add: separator_def)
  qed
  from direct chunked show ?thesis by blast
qed

theorem processAudioFile_joins_in_order_witness:
  "processAudioFile numbered_env ''/tmp/upload_1_a.mp3'' 30000000 ''a.mp3'' large_world =
     (Inr (''parte 0'' @ [CHR 0x0A, CHR 0x0A] @ ''parte 1''),
      snd (processAudioFile numbered_env ''/tmp/upload_1_a.mp3'' 30000000 ''a.mp3'' large_world)) \<and>
   MAX_SIZE < 30000000 \<and>
   processAudioFile numbered_env ''/tmp/upload_1_a.mp3'' 3 ''a.mp3'' small_world =
     (Inr ''parte 0'',
      snd (processAudioFile numbered_env ''/tmp/upload_1_a.mp3'' 3 ''a.mp3'' small_world)) \<and>
   3 \<le> MAX_SIZE \<and>
   api numbered_env (length (api_calls small_world)) = ApiText ''parte 0''"
proof -
  let ?chunks = "[''/tmp/chunk_0_1700000000000.mp3'', ''/tmp/chunk_1_1700000000001.mp3'']"
  let ?large = "processAudioFile numbered_env ''/tmp/upload_1_a.mp3'' 30000000 ''a.mp3'' large_world"
  let ?small = "processAudioFile numbered_env ''/tmp/upload_1_a.mp3'' 3 ''a.mp3'' small_world"
  have small: "3 \<le> MAX_SIZE" and big: "MAX_SIZE < 30000000" by (simp_all add: MAX_SIZE_def)
  have split: "splitMP3IntoChunks numbered_env ''/tmp/upload_1_a.mp3'' 30000000 large_world =
     (Inr ?chunks, chunked_world)"
    by (rule split_example) (simp_all add: numbered_env_def example_env_def)
  have ok: "\<not> is_api_error (api numbered_env (length (api_calls large_world) + j))" for j
    by (simp add: is_api_error_def numbered_env_def)
  have "fst ?large = Inr (''parte 0'' @ [CHR 0x0A, CHR 0x0A] @ ''parte 1'')"
    unfolding processAudioFile_chunked_success[OF fmt_example big split ok]
    by (simp add: Let_def numeral_2_eq_2 the_text_def show_nat_0 show_nat_Suc0 separator_def
        large_world_def trim_def is_whitespace_def numbered_env_def)
  then have l: "?large = (Inr (''parte 0'' @ [CHR 0x0A, CHR 0x0A] @ ''parte 1''), snd ?large)"
    by (simp add: prod_eq_iff)
  have "fst ?small = Inr ''parte 0''"
    unfolding processAudioFile_direct[OF fmt_example small]
    by (simp add: numbered_env_def small_world_def show_nat_0 trim_def is_whitespace_def)
  then have s: "?small = (Inr ''parte 0'', snd ?small)"
    by (simp add: prod_eq_iff)
  from processAudioFile_joins_in_order[OF s] small
  have "api numbered_env (length (api_calls small_world)) = ApiText ''parte 0''" by simp
  moreover from processAudioFile_joins_in_order[OF l] big
  have "''parte 0'' @ [CHR 0x0A, CHR 0x0A] @ ''parte 1'' =
      join (map (\<lambda>j. the_text (api numbered_env (length (api_calls large_world) + j)))
        [0..<numChunks 30000000]) [CHR 0x0A, CHR 0x0A]" by simp
  ultimately show ?thesis using l s small big by simp
qed

section \<open>The retrying \<open>transcribeAudio\<close>\<close>

lemma ta_text:
  "api E (length (api_calls w)) = ApiText t \<Longrightarrow>
   transcribeAudio_retry E p rc w = (Inr t, called p w)"
  by (subst transcribeAudio_retry.simps) (simp add: transcriptions_create_def called_def)

lemma ta_error:
  "api E (length (api_calls w)) = ApiError e \<Longrightarrow>
   transcribeAudio_retry E p rc w =
     (if status e = Some 401 then (Inl (Error msg_invalid_key), called p w)
      else if status e = Some 429 then (Inl (Error msg_rate_limit), called p w)
      else if status e = Some 413 then (Inl (Error msg_too_large), called p w)
      else if is_connection_error e then
        (if rc < MAX_RETRIES
         then transcribeAudio_retry E p (rc + 1) (setTimeout ((rc + 1) * 2000) (called p w))
         else (Inl (Error msg_connection), called p w))
      else (Inl (Error (if message e = [] then msg_unknown else message e)), called p w))"
  by (subst transcribeAudio_retry.simps) (simp add: transcriptions_create_def called_def Let_def)

lemma ta_transient:
  assumes "is_transient (api E (length (api_calls w)))"
  shows "transcribeAudio_retry E p rc w =
     (if rc < MAX_RETRIES
      then transcribeAudio_retry E p (Suc rc) (setTimeout ((rc + 1) * 2000) (called p w))
      else (Inl (Error msg_connection), called p w))"
proof -
  from assms obtain e where e: "api E (length (api_calls w)) = ApiError e"
    "\<not> fatal_status e" "is_connection_error e"
    by (cases "api E (length (api_calls w))") (simp_all add: is_transient_def)
  then show ?thesis by (simp add: ta_error[OF e(1)] fatal_status_def)
qed

lemma ta_retries:
  assumes "rc + m \<le> MAX_RETRIES"
    and "\<And>j. j < m \<Longrightarrow> is_transient (api E (length (api_calls w) + j))"
  shows "transcribeAudio_retry E p rc w = transcribeAudio_retry E p (rc + m) (retried p rc m w)"
  using assms
proof (induction m arbitrary: rc w)
  case 0
  then show ?case by (simp add: retried_def)
next
  case (Suc m)
  let ?w1 = "setTimeout ((rc + 1) * 2000) (called p w)"
  have first: "is_transient (api E (length (api_calls w)))"
    using Suc.prems(2)[of 0] by simp
  have rc: "rc < MAX_RETRIES" using Suc.prems(1) by simp
  have len: "length (api_calls (setTimeout t (called p w))) = Suc (length (api_calls w))" for t
    by (simp add: setTimeout_def called_def)
  have "transcribeAudio_retry E p (Suc rc) ?w1 =
        transcribeAudio_retry E p (Suc rc + m) (retried p (Suc rc) m ?w1)"
  proof (rule Suc.IH)
    show "Suc rc + m \<le> MAX_RETRIES" using Suc.prems(1) by simp
    fix j assume "j < m"
    then show "is_transient (api E (length (api_calls ?w1) + j))"
      using Suc.prems(2)[of "Suc j"] by (simp add: len)
  qed
  moreover have "retried p (Suc rc) m ?w1 = retried p rc (Suc m) w"
  proof -
    have "map (\<lambda>j. (rc + j + 1) * 2000) [0..<Suc m] =
          (rc + 1) * 2000 # map (\<lambda>j. (Suc rc + j + 1) * 2000) [0..<m]"
      by (simp add: upt_conv_Cons map_Suc_upt[symmetric] del: upt_Suc)
    then show ?thesis
      by (simp add: retried_def setTimeout_def called_def replicate_append_same del: upt_Suc)
  qed
  ultimately show ?case using rc first by (simp add: ta_transient)
qed

lemma connection_error_transient: "is_transient (ApiError connection_error)"
  by (simp add: is_transient_def fatal_status_def is_connection_error_def connection_error_def
      startsWith_def)

text \<open>
  Claim C5. \<open>transcribeAudio\<close> of the second route file, called with no retry made yet: when
  the first \<open>m \<le> 3\<close> calls of the API fail with a connection error (an error whose status is
  none of 401, 429 and 413, with code \<open>ECONNREFUSED\<close> or \<open>ENOTFOUND\<close> or a message that
  includes \<open>Connection error\<close>) and the next one returns a text, that text is returned after
  \<open>m + 1\<close> calls and the waits \<open>2000, 4000, \<dots>\<close> (milliseconds), one before each retry; when
  the first four calls fail so, the error of a failed connection is thrown after exactly four
  calls and the waits 2000, 4000 and 6000.
\<close>

theorem transcribeAudio_retries_connection_errors:
  "MAX_RETRIES = 3 \<and>
   (m \<le> MAX_RETRIES \<and> (\<forall>j<m. is_transient (api E (length (api_calls w) + j))) \<and>
    api E (length (api_calls w) + m) = ApiText t \<longrightarrow>
      transcribeAudio_retry E filePath 0 w =
        (Inr t, w\<lparr>api_calls := api_calls w @ replicate (Suc m) filePath,
                  sleeps := sleeps w @ map (\<lambda>j. (j + 1) * 2000) [0..<m]\<rparr>)) \<and>
   ((\<forall>j\<le>MAX_RETRIES. is_transient (api E (length (api_calls w) + j))) \<longrightarrow>
      transcribeAudio_retry E filePath 0 w =
        (Inl (Error msg_connection),
         w\<lparr>api_calls := api_calls w @ [filePath, filePath, filePath, filePath],
           sleeps := sleeps w @ [2000, 4000, 6000]\<rparr>))"
proof (intro conjI impI)
  show "MAX_RETRIES = 3" by (simp add: MAX_RETRIES_def)
next
  assume a: "m \<le> MAX_RETRIES \<and> (\<forall>j<m. is_transient (api E (length (api_calls w) + j))) \<and>
    api E (length (api_calls w) + m) = ApiText t"
  then have "transcribeAudio_retry E filePath 0 w =
      transcribeAudio_retry E filePath (0 + m) (retried filePath 0 m w)"
    by (intro ta_retries) auto
  moreover have "api E (length (api_calls (retried filePath 0 m w))) = ApiText t"
    using a by (simp add: retried_def)
  ultimately show "transcribeAudio_retry E filePath 0 w =
        (Inr t, w\<lparr>api_calls := api_calls w @ replicate (Suc m) filePath,
                  sleeps := sleeps w @ map (\<lambda>j. (j + 1) * 2000) [0..<m]\<rparr>)"
    by (simp add: ta_text retried_def called_def replicate_append_same del: upt_Suc)
next
  assume a: "\<forall>j\<le>MAX_RETRIES. is_transient (api E (length (api_calls w) + j))"
  then have "transcribeAudio_retry E filePath 0 w =
      transcribeAudio_retry E filePath (0 + MAX_RETRIES) (retried filePath 0 MAX_RETRIES w)"
    by (intro ta_retries) auto
  moreover have "is_transient (api E (length (api_calls (retried filePath 0 MAX_RETRIES w))))"
    using a by (simp add: retried_def)
  ultimately show "transcribeAudio_retry E filePath 0 w =
        (Inl (Error msg_connection),
         w\<lparr>api_calls := api_calls w @ [filePath, filePath, filePath, filePath],
           sleeps := sleeps w @ [2000, 4000, 6000]\<rparr>)"
    by (simp add: ta_transient retried_def called_def MAX_RETRIES_def numeral_3_eq_3)
qed

theorem transcribeAudio_retries_connection_errors_witness:
  "is_transient (api flaky_env (length (api_calls small_world) + 0)) \<and>
   is_transient (api flaky_env (length (api_calls small_world) + 1)) \<and>
   api flaky_env (length (api_calls small_world) + 2) = ApiText ''hola'' \<and>
   transcribeAudio_retry flaky_env ''/tmp/upload_1_a.mp3'' 0 small_world =
     (Inr ''hola'',
      small_world\<lparr>api_calls := [''/tmp/upload_1_a.mp3'', ''/tmp/upload_1_a.mp3'', ''/tmp/upload_1_a.mp3''],
        sleeps := [2000, 4000]\<rparr>) \<and>
   is_transient (api offline_env (length (api_calls small_world) + 0)) \<and>
   is_transient (api offline_env (length (api_calls small_world) + 1)) \<and>
   is_transient (api offline_env (length (api_calls small_world) + 2)) \<and>
   is_transient (api offline_env (length (api_calls small_world) + 3)) \<and>
   transcribeAudio_retry offline_env ''/tmp/upload_1_a.mp3'' 0 small_world =
     (Inl (Error msg_connection),
      small_world\<lparr>api_calls := [''/tmp/upload_1_a.mp3'', ''/tmp/upload_1_a.mp3'', ''/tmp/upload_1_a.mp3'',
          ''/tmp/upload_1_a.mp3''],
        sleeps := [2000, 4000, 6000]\<rparr>)"
proof -
  have f: "\<forall>j<2. is_transient (api flaky_env (length (api_calls small_world) + j))"
    by (simp add: flaky_env_def small_world_def connection_error_transient)
  have g: "api flaky_env (length (api_calls small_world) + 2) = ApiText ''hola''"
    by (simp add: flaky_env_def small_world_def)
  have o: "\<forall>j\<le>MAX_RETRIES. is_transient (api offline_env (length (api_calls small_world) + j))"
    by (simp add: offline_env_def connection_error_transient)
  have m: "(2::nat) \<le> MAX_RETRIES" by (simp add: MAX_RETRIES_def)
  from transcribeAudio_retries_connection_errors[where m = 2 and E = flaky_env and w = small_world
      and t = "''hola''" and filePath = "''/tmp/upload_1_a.mp3''"] f g m
  have a: "transcribeAudio_retry flaky_env ''/tmp/upload_1_a.mp3'' 0 small_world =
     (Inr ''hola'',
      small_world\<lparr>api_calls := [''/tmp/upload_1_a.mp3'', ''/tmp/upload_1_a.mp3'', ''/tmp/upload_1_a.mp3''],
        sleeps := [2000, 4000]\<rparr>)"
    by (simp add: small_world_def numeral_2_eq_2)
  from transcribeAudio_retries_connection_errors[where E = offline_env and w = small_world
      and filePath = "''/tmp/upload_1_a.mp3''"] o
  have b: "transcribeAudio_retry offline_env ''/tmp/upload_1_a.mp3'' 0 small_world =
     (Inl (Error msg_connection),
      small_world\<lparr>api_calls := [''/tmp/upload_1_a.mp3'', ''/tmp/upload_1_a.mp3'', ''/tmp/upload_1_a.mp3'',
          ''/tmp/upload_1_a.mp3''],
        sleeps := [2000, 4000, 6000]\<rparr>)"
    by (simp add: small_world_def)
  have f': "is_transient (api flaky_env (length (api_calls small_world) + 0))"
    "is_transient (api flaky_env (length (api_calls small_world) + 1))"
    by (simp_all add: flaky_env_def small_world_def connection_error_transient)
  have o': "is_transient (api offline_env k)" for k
    by (simp add: offline_env_def connection_error_transient)
  from a b f' g o' show ?thesis by simp
qed

text \<open>
  Claim C9. \<open>transcribeAudio\<close> of the second route file, whatever the number of retries made
  so far: when the call of the API fails with status 401, 429 or 413, the error of an
  invalid key, of the rate limit, or of a file too large is thrown; when it fails with
  another status and is not a connection error, an error with the upstream message is thrown
  (with a default message when the upstream message is empty). In each case exactly one call
  of the API was made and no wait was added: the error is thrown at once.
\<close>

theorem transcribeAudio_classifies_errors:
  assumes "api E (length (api_calls w)) = ApiError e"
  shows "(status e = Some 401 \<longrightarrow>
            transcribeAudio_retry E filePath retryCount w =
              (Inl (Error msg_invalid_key), w\<lparr>api_calls := api_calls w @ [filePath]\<rparr>)) \<and>
         (status e = Some 429 \<longrightarrow>
            transcribeAudio_retry E filePath retryCount w =
              (Inl (Error msg_rate_limit), w\<lparr>api_calls := api_calls w @ [filePath]\<rparr>)) \<and>
         (status e = Some 413 \<longrightarrow>
            transcribeAudio_retry E filePath retryCount w =
              (Inl (Error msg_too_large), w\<lparr>api_calls := api_calls w @ [filePath]\<rparr>)) \<and>
         (\<not> fatal_status e \<and> \<not> is_connection_error e \<longrightarrow>
            transcribeAudio_retry E filePath retryCount w =
              (Inl (Error (if message e = [] then msg_unknown else message e)),
               w\<lparr>api_calls := api_calls w @ [filePath]\<rparr>))"
  by (simp add: ta_error[OF assms] called_def fatal_status_def)

theorem transcribeAudio_classifies_errors_witness:
  "transcribeAudio_retry (status_env 401) ''/tmp/upload_1_a.mp3'' 0 small_world =
     (Inl (Error msg_invalid_key), small_world\<lparr>api_calls := [''/tmp/upload_1_a.mp3'']\<rparr>) \<and>
   transcribeAudio_retry (status_env 429) ''/tmp/upload_1_a.mp3'' 0 small_world =
     (Inl (Error msg_rate_limit), small_world\<lparr>api_calls := [''/tmp/upload_1_a.mp3'']\<rparr>) \<and>
   transcribeAudio_retry (status_env 413) ''/tmp/upload_1_a.mp3'' 0 small_world =
     (Inl (Error msg_too_large), small_world\<lparr>api_calls := [''/tmp/upload_1_a.mp3'']\<rparr>) \<and>
   transcribeAudio_retry (status_env 500) ''/tmp/upload_1_a.mp3'' 0 small_world =
     (Inl (Error ''upstream''), small_world\<lparr>api_calls := [''/tmp/upload_1_a.mp3'']\<rparr>) \<and>
   sleeps small_world = []"
proof -
  have e: "api (status_env s) (length (api_calls small_world)) =
      ApiError \<lparr>status = Some s, code = None, message = ''upstream''\<rparr>" for s
    by (simp add: status_env_def)
  have n: "\<not> is_connection_error \<lparr>status = Some s, code = None, message = ''upstream''\<rparr>" for s
    by (simp add: is_connection_error_def startsWith_def)
  from transcribeAudio_classifies_errors[OF e[of 401], of "''/tmp/upload_1_a.mp3''" 0]
       transcribeAudio_classifies_errors[OF e[of 429], of "''/tmp/upload_1_a.mp3''" 0]
       transcribeAudio_classifies_errors[OF e[of 413], of "''/tmp/upload_1_a.mp3''" 0]
       transcribeAudio_classifies_errors[OF e[of 500], of "''/tmp/upload_1_a.mp3''" 0] n
  show ?thesis by (simp add: small_world_def fatal_status_def)
qed

section \<open>The temporary file of the upload\<close>

text \<open>Every error response sent after the upload was written follows its unlink.\<close>

lemma POST_upload_failure_unlinks:
  assumes "POST_upload process E (Inr (Some file)) w = (JsonError m s, w')"
  shows "fs w' (path_join (tmpdir E)
            (''upload_'' @ show_nat (clock E (ticks w)) @ ''_'' @ file_name file)) = None"
  using assms
  by (auto simp: POST_upload_def date_now_def unlink_def Let_def
      split: prod.splits sum.splits option.splits if_splits)

lemma processAudioFile_retry_direct_text:
  assumes "isSupportedFormat originalName" "fileSize \<le> MAX_SIZE"
    "api E (length (api_calls w)) = ApiText t" "trim t \<noteq> []"
  shows "processAudioFile_retry E filePath fileSize originalName w = (Inr t, called filePath w)"
  using assms
  by (simp add: processAudioFile_retry_def processAudioFile_body_def process_try_direct ta_text
      cleanup_def)

text \<open>
  Claim C4 fails on the path of success. A request with a supported upload of three bytes,
  transcribed and rendered without error, is answered with the document by either route
  file, and the temporary file of the upload is still in the file system.
\<close>

theorem POST_success_keeps_upload:
  "fst (POST example_env (Inr (Some example_file)) empty_world) =
     PdfAttachment [37, 80, 68, 70] 200 ''application/pdf''
       (''attachment; filename='' @ [CHR 0x22] @ ''a_transcripcion.pdf'' @ [CHR 0x22]) \<and>
   fs (snd (POST example_env (Inr (Some example_file)) empty_world))
     ''/tmp/upload_1700000000000_a.mp3'' = Some [73, 68, 51] \<and>
   fst (POST_retry example_env (Inr (Some example_file)) empty_world) =
     PdfAttachment [37, 80, 68, 70] 200 ''application/pdf''
       (''attachment; filename='' @ [CHR 0x22] @ ''a_transcripcion.pdf'' @ [CHR 0x22]) \<and>
   fs (snd (POST_retry example_env (Inr (Some example_file)) empty_world))
     ''/tmp/upload_1700000000000_a.mp3'' = Some [73, 68, 51]"
proof -
  let ?p = "''/tmp/upload_1700000000000_a.mp3''"
  let ?w2 = "empty_world\<lparr>ticks := 1, fs := [?p \<mapsto> [73, 68, 51]], writes := 1\<rparr>"
  have t: "trim ''hola'' \<noteq> []" by (simp add: trim_def is_whitespace_def)
  have a: "api example_env k = ApiText ''hola''" for k
    by (simp add: example_env_def)
  have p1: "processAudioFile example_env p S ''a.mp3'' w2 = (Inr ''hola'', called p w2)"
    if "S \<le> MAX_SIZE" for p S w2
    using t by (simp add: processAudioFile_direct[OF fmt_example that] a called_def)
  have p2: "processAudioFile_retry example_env p S ''a.mp3'' w2 = (Inr ''hola'', called p w2)"
    if "S \<le> MAX_SIZE" for p S w2
    by (rule processAudioFile_retry_direct_text[OF fmt_example that a t])
  have small: "Suc (Suc (Suc 0)) \<le> MAX_SIZE" by (simp add: MAX_SIZE_def)
  have pdf: "generatePDF example_env ''a.mp3'' ''hola'' = Inr [37, 80, 68, 70]"
    by (simp add: example_env_def)
  have key: "OPENAI_API_KEY example_env = Some ''sk-test''" and tmp: "tmpdir example_env = ''/tmp''"
    and clk: "clock example_env 0 = 1700000000000"
    and wr: "write_outcome example_env 0 = Written"
    by (simp_all add: example_env_def)
  have path: "path_join ''/tmp'' ''upload_1700000000000_a.mp3'' = ?p"
    by (simp add: path_join_def normalize_def normalizeString_def normalize_step_def)
  have header: "valid_header_value
      (''attachment; filename='' @ [CHR 0x22] @ ''a_transcripcion.pdf'' @ [CHR 0x22])"
    by (simp add: valid_header_value_def)
  have up: "POST_upload process example_env (Inr (Some example_file)) empty_world =
      (PdfAttachment [37, 80, 68, 70] 200 ''application/pdf''
         (''attachment; filename='' @ [CHR 0x22] @ ''a_transcripcion.pdf'' @ [CHR 0x22]),
       called ?p ?w2)"
    if "\<And>p S w2. S \<le> MAX_SIZE \<Longrightarrow> process p S ''a.mp3'' w2 = (Inr ''hola'', called p w2)"
    for process
    using header
    by (simp add: POST_upload_def example_file_def date_now_def tmp clk wr empty_world_def
        writeFile_def show_nat_t0 path that[OF small] pdf Let_def)
  have kept: "fs (called p (w0\<lparr>ticks := n, fs := [p \<mapsto> b], writes := m\<rparr>)) p = Some b"
    for p b w0 n m
    by (simp add: called_def)
  show ?thesis
    by (simp add: POST_def POST_retry_def key startsWith_def kept
        up[of "processAudioFile example_env", OF p1]
        up[of "processAudioFile_retry example_env", OF p2])
qed

section \<open>The upload form and the route disagree on \<open>.aac\<close>\<close>

lemma extname_aac: "extname (base @ ''.aac'') = ''.aac'' \<or> extname (base @ ''.aac'') = []"
  by (simp add: extname_def Let_def)

lemma toLowerCase_aac: "toLowerCase ''.aac'' = ''.aac''"
  by (simp add: str_eval)

lemma aac_unsupported: "\<not> isSupportedFormat (base @ ''.aac'')"
  using extname_aac[of base]
  by (auto simp: isSupportedFormat_def toLowerCase_aac SUPPORTED_FORMATS_def toLowerCase_def)

lemma aac_matches: "matches_audio_extension (base @ ''.aac'')"
proof -
  have "toLowerCase (base @ ''.aac'') = toLowerCase base @ ''.aac''"
    using toLowerCase_aac by (simp add: toLowerCase_def)
  then have "endsWith (toLowerCase (base @ ''.aac'')) (''.'' @ ''aac'')"
    by (simp add: endsWith_def)
  then show ?thesis unfolding matches_audio_extension_def by simp
qed

text \<open>
  Claim C10. Every file whose name ends in \<open>.aac\<close> is accepted by \<open>isValidAudioFile\<close>, and
  \<open>getSupportedFormats\<close> lists \<open>.aac\<close>; \<open>isSupportedFormat\<close> rejects the name, and
  \<open>processAudioFile\<close> of either route file fails on it with the error of an unsupported
  format, the world unchanged: no call of the API was made.
\<close>

theorem aac_passes_form_fails_route:
  "isValidAudioFile \<lparr>file_name = base @ ''.aac'', file_type = ty, file_bytes = bytes\<rparr> \<and>
   ''.aac'' \<in> set getSupportedFormats \<and>
   \<not> isSupportedFormat (base @ ''.aac'') \<and>
   processAudioFile E filePath fileSize (base @ ''.aac'') w =
     (Inl (Error (msg_unsupported (toLowerCase (extname (base @ ''.aac''))))), w) \<and>
   processAudioFile_retry E filePath fileSize (base @ ''.aac'') w =
     (Inl (Error (msg_unsupported (toLowerCase (extname (base @ ''.aac''))))), w)"
  by (simp add: isValidAudioFile_def aac_matches getSupportedFormats_def aac_unsupported
      processAudioFile_def processAudioFile_retry_def body_unsupported)

theorem aac_passes_form_fails_route_witness:
  "isValidAudioFile \<lparr>file_name = ''nota.aac'', file_type = ''audio/aac'', file_bytes = [0, 1]\<rparr> \<and>
   \<not> isSupportedFormat ''nota.aac'' \<and>
   processAudioFile example_env ''/tmp/upload_1_nota.aac'' 2 ''nota.aac'' empty_world =
     (Inl (Error (msg_unsupported ''.aac'')), empty_world)"
proof -
  have e: "toLowerCase (extname ''nota.aac'') = ''.aac''" by (simp add: str_eval)
  from aac_passes_form_fails_route[of "''nota''" "''audio/aac''" "[0, 1]" example_env
      "''/tmp/upload_1_nota.aac''" 2 empty_world]
  show ?thesis by (simp add: e)
qed

end
